theory Spec2Isabelle
  imports Complex_Main "HOL-Library.Word" "HOL-Library.Multiset"
begin

section \<open>A keyword-argument tuple: \<^verbatim>\<open>cpp17_tuple.cpp\<close>\<close>

text \<open>
  The program is a heterogeneous tuple built as an inheritance chain, one level per
  element, with an out-of-order "keyword" construction: \<^verbatim>\<open>pos<3>(3.14)\<close> names the
  slot its value is for. Template instantiation and execution are modelled together:
  a program the compiler rejects and a program that runs are both results of the same
  functions, the first as \<open>Inl IllFormed\<close>. Where one call has an ill-formed part and
  a part whose behaviour is undefined, the functions return the error they meet first;
  no statement below depends on which of the two it is.
\<close>

subsection \<open>Element types and values\<close>

text \<open>
  The element types are the ones \<^verbatim>\<open>main\<close> instantiates the tuple with:
  \<^verbatim>\<open>bool\<close>, \<^verbatim>\<open>char\<close>, \<^verbatim>\<open>short\<close>, \<^verbatim>\<open>int\<close>, \<^verbatim>\<open>double\<close>, \<^verbatim>\<open>double*\<close> and
  \<^verbatim>\<open>std::unique_ptr<std::string>\<close>. An integer is a word of its width, a
  \<^verbatim>\<open>double\<close> is the number it denotes (the tuple stores and returns it, and
  never computes with it), a \<^verbatim>\<open>double*\<close> is the address it holds, and an owning
  pointer is the string it owns; \<open>None\<close> is the null pointer.
\<close>

datatype ty = TBool | TChar | TShort | TInt | TDouble | TDoublePtr | TUniquePtr

datatype val =
    VBool bool
  | VChar "8 word"
  | VShort "16 word"
  | VInt "32 word"
  | VDouble real
  | VDoublePtr "nat option"
  | VUniquePtr "string option"

fun type_of :: "val \<Rightarrow> ty" where
  "type_of (VBool b) = TBool"
| "type_of (VChar c) = TChar"
| "type_of (VShort h) = TShort"
| "type_of (VInt n) = TInt"
| "type_of (VDouble r) = TDouble"
| "type_of (VDoublePtr p) = TDoublePtr"
| "type_of (VUniquePtr u) = TUniquePtr"

text \<open>
  \<open>IllFormed\<close>: the instantiation does not compile. \<open>Undefined\<close>: it compiles and
  its behaviour is undefined (a \<^verbatim>\<open>double\<close> converted to an integer type that
  cannot hold its integral part, a read through a dangling reference).
\<close>

datatype error = IllFormed | Undefined

text \<open>\<^verbatim>\<open>First{}\<close>: value-initialization.\<close>

fun default_value :: "ty \<Rightarrow> val" where
  "default_value TBool = VBool False"
| "default_value TChar = VChar 0"
| "default_value TShort = VShort 0"
| "default_value TInt = VInt 0"
| "default_value TDouble = VDouble 0"
| "default_value TDoublePtr = VDoublePtr None"
| "default_value TUniquePtr = VUniquePtr None"

text \<open>
  The value of an object of integral type. Plain \<^verbatim>\<open>char\<close> is signed, as it is for
  the compiler and platform the README builds with (g++ on x86-64).
\<close>

fun as_int :: "val \<Rightarrow> int option" where
  "as_int (VBool b) = Some (if b then 1 else 0)"
| "as_int (VChar c) = Some (sint c)"
| "as_int (VShort h) = Some (sint h)"
| "as_int (VInt n) = Some (sint n)"
| "as_int (VDouble r) = None"
| "as_int (VDoublePtr p) = None"
| "as_int (VUniquePtr u) = None"

text \<open>
  Conversion of an integer to an arithmetic type: to \<^verbatim>\<open>bool\<close> by comparison with
  zero, to an integer type modulo \<open>2 ^ width\<close>, to \<^verbatim>\<open>double\<close> exactly. No
  integer value converts to a pointer type (only a literal does).
\<close>

fun from_int :: "ty \<Rightarrow> int \<Rightarrow> error + val" where
  "from_int TBool n = Inr (VBool (n \<noteq> 0))"
| "from_int TChar n = Inr (VChar (word_of_int n))"
| "from_int TShort n = Inr (VShort (word_of_int n))"
| "from_int TInt n = Inr (VInt (word_of_int n))"
| "from_int TDouble n = Inr (VDouble (of_int n))"
| "from_int TDoublePtr n = Inl IllFormed"
| "from_int TUniquePtr n = Inl IllFormed"

text \<open>
  Conversion of a \<^verbatim>\<open>double\<close>: to an integer type by truncation towards zero,
  undefined when the truncated value is out of the type's range.
\<close>

definition truncated :: "real \<Rightarrow> int" where
  "truncated r = (if 0 \<le> r then \<lfloor>r\<rfloor> else \<lceil>r\<rceil>)"

definition in_range :: "nat \<Rightarrow> int \<Rightarrow> bool" where
  "in_range w n \<longleftrightarrow> - (2 ^ (w - 1)) \<le> n \<and> n < 2 ^ (w - 1)"

fun from_double :: "ty \<Rightarrow> real \<Rightarrow> error + val" where
  "from_double TBool r = Inr (VBool (r \<noteq> 0))"
| "from_double TChar r =
     (if in_range 8 (truncated r) then Inr (VChar (word_of_int (truncated r))) else Inl Undefined)"
| "from_double TShort r =
     (if in_range 16 (truncated r) then Inr (VShort (word_of_int (truncated r))) else Inl Undefined)"
| "from_double TInt r =
     (if in_range 32 (truncated r) then Inr (VInt (word_of_int (truncated r))) else Inl Undefined)"
| "from_double TDouble r = Inr (VDouble r)"
| "from_double TDoublePtr r = Inl IllFormed"
| "from_double TUniquePtr r = Inl IllFormed"

text \<open>
  The implicit conversion of a value to the type \<open>T\<close>, as the assignment in
  \<^verbatim>\<open>set\<close> applies it: the value itself when it has the type already, the arithmetic
  conversions, and a raw pointer to \<^verbatim>\<open>bool\<close>. An owning pointer converts
  implicitly to no other type, and nothing else converts to a pointer type.
\<close>

definition standard_conversion :: "ty \<Rightarrow> val \<Rightarrow> error + val" where
  "standard_conversion T v =
     (if type_of v = T then Inr v
      else case v of
          VDouble r \<Rightarrow> from_double T r
        | VDoublePtr p \<Rightarrow> (if T = TBool then Inr (VBool (p \<noteq> None)) else Inl IllFormed)
        | VUniquePtr u \<Rightarrow> Inl IllFormed
        | _ \<Rightarrow> (case as_int v of Some n \<Rightarrow> from_int T n | None \<Rightarrow> Inl IllFormed))"

text \<open>
  Direct-initialization \<^verbatim>\<open>m_value( ... )\<close> of a member of type \<open>T\<close>: the implicit
  conversions, and the explicit \<^verbatim>\<open>operator bool\<close> of the owning pointer.
\<close>

definition direct_init :: "ty \<Rightarrow> val \<Rightarrow> error + val" where
  "direct_init T v =
     (case v of
        VUniquePtr u \<Rightarrow> (if T = TBool then Inr (VBool (u \<noteq> None)) else standard_conversion T v)
      | _ \<Rightarrow> standard_conversion T v)"

text \<open>
  Initializing or assigning from \<^verbatim>\<open>std::move(x)\<close>, where \<open>x\<close> holds \<open>v\<close> and is
  const-qualified when \<open>c\<close>: the value obtained and the value left in \<open>x\<close>. The owning
  pointer is the one element type with a move constructor of its own: it hands over
  what it owns and is left null (\<open>left_behind\<close>), and it has no copy constructor,
  which is the only one a \<^verbatim>\<open>const\<close> operand could select. Every other element type
  is copied.
\<close>

fun left_behind :: "val \<Rightarrow> val" where
  "left_behind (VUniquePtr u) = VUniquePtr None"
| "left_behind v = v"

definition move_value :: "bool \<Rightarrow> val \<Rightarrow> error + (val \<times> val)" where
  "move_value c v =
     (if c \<and> type_of v = TUniquePtr then Inl IllFormed else Inr (v, left_behind v))"

subsection \<open>The caller's objects and \<^verbatim>\<open>position\<close>\<close>

text \<open>
  A \<^verbatim>\<open>position<Index, Type>\<close> holds a reference \<^verbatim>\<open>Type& value\<close>, bound by its
  constructor to the argument of \<^verbatim>\<open>pos<Index>\<close>: an object of the caller, or a
  temporary that lives until the end of the full expression. A reference is the
  address of the object it is bound to and whether it is a reference to \<^verbatim>\<open>const\<close>;
  the caller's objects, temporaries among them, are a store from addresses to values.
  The store also lists the initializers that \<^verbatim>\<open>initialize\<close> has executed
  \<^verbatim>\<open>return std::move( x.value )\<close> on, latest first.
\<close>

record ref =
  target :: nat
  is_const :: bool

record position =
  index :: int
  value_ref :: ref

definition pos :: "int \<Rightarrow> ref \<Rightarrow> position" where
  "pos Index v = \<lparr>index = Index, value_ref = v\<rparr>"

record memory =
  objects :: "nat \<Rightarrow> val"
  consumed :: "position list"

definition move_from :: "ref \<Rightarrow> memory \<Rightarrow> error + (val \<times> memory)" where
  "move_from r m =
     (case move_value (is_const r) (objects m (target r)) of
        Inl e \<Rightarrow> Inl e
      | Inr (v, left) \<Rightarrow> Inr (v, m\<lparr>objects := (objects m)(target r := left)\<rparr>))"

subsection \<open>\<^verbatim>\<open>initialize\<close>\<close>

text \<open>
  \<^verbatim>\<open>initialize<N, First>( x, rest... )\<close>: the value for the slot \<open>N\<close>, whose type is
  \<open>First\<close>. The function returns \<^verbatim>\<open>auto\<close>, an object of the initializer's own
  type, move-constructed from what \<^verbatim>\<open>x.value\<close> refers to.
\<close>

fun initialize :: "int \<Rightarrow> ty \<Rightarrow> position list \<Rightarrow> memory \<Rightarrow> error + (val \<times> memory)" where
  "initialize N First [] m = Inr (default_value First, m)"
| "initialize N First (x # rest) m =
     (if index x = N then move_from (value_ref x) (m\<lparr>consumed := x # consumed m\<rparr>)
      else initialize N First rest m)"

text \<open>
  For the statements below: the first of the initializers \<open>x\<close> whose index is \<open>N\<close>.
  It is the one \<open>initialize N\<close> returns from (lemma \<open>initialize_selected\<close>).
\<close>

definition selected :: "int \<Rightarrow> position list \<Rightarrow> position option" where
  "selected N x = find (\<lambda>p. index p = N) x"

text \<open>
  Also for the statements below: a slot with an index greater than \<open>i\<close>, up to \<open>NDim\<close>,
  is initialized from the object at the address \<open>a\<close>. The constructor initializes the
  base before the member, that is the slots from the last to the first, so that these
  are the slots initialized before the slot \<open>i\<close> (lemma \<open>sized_tuple_objects\<close>).
\<close>

definition moved_earlier :: "int \<Rightarrow> position list \<Rightarrow> int \<Rightarrow> nat \<Rightarrow> bool" where
  "moved_earlier NDim x i a =
     list_ex (\<lambda>j. case selected j x of None \<Rightarrow> False | Some q \<Rightarrow> target (value_ref q) = a)
       [i + 1..NDim]"

subsection \<open>\<^verbatim>\<open>sized_tuple\<close>\<close>

text \<open>
  An object of type \<^verbatim>\<open>sized_tuple<NDim, First, Types...>\<close> is the list of the
  \<^verbatim>\<open>m_value\<close> members of its levels, its own first and then its base's; the recursion
  anchor \<^verbatim>\<open>sized_tuple<NDim>\<close> is the empty list. The constructor initializes the base
  first and the member after it, each from all the arguments; the level's
  \<^verbatim>\<open>s_index\<close> is \<^verbatim>\<open>NDim - sizeof...( Types )\<close>. (The subtraction is made in
  \<^verbatim>\<open>std::size_t\<close>; in a \<^verbatim>\<open>tuple\<close>, where \<open>NDim\<close> is the number of all the types,
  it does not wrap, and the indices of the levels are 1 to \<open>NDim\<close>.)
\<close>

fun sized_tuple :: "int \<Rightarrow> ty list \<Rightarrow> position list \<Rightarrow> memory \<Rightarrow> error + (val list \<times> memory)" where
  "sized_tuple NDim [] x m = Inr ([], m)"
| "sized_tuple NDim (First # Types) x m =
     (case sized_tuple NDim Types x m of
        Inl e \<Rightarrow> Inl e
      | Inr (super, m1) \<Rightarrow>
          (case initialize (NDim - int (length Types)) First x m1 of
             Inl e \<Rightarrow> Inl e
           | Inr (v, m2) \<Rightarrow>
               (case direct_init First v of
                  Inl e \<Rightarrow> Inl e
                | Inr m_value \<Rightarrow> Inr (m_value # super, m2))))"

text \<open>\<^verbatim>\<open>tuple<T...>\<close> is \<^verbatim>\<open>sized_tuple<sizeof...( T ), T...>\<close>.\<close>

definition tuple :: "ty list \<Rightarrow> position list \<Rightarrow> memory \<Rightarrow> error + (val list \<times> memory)" where
  "tuple T x m = sized_tuple (int (length T)) T x m"

text \<open>
  What \<^verbatim>\<open>get<Idx>()\<close> returns. \<open>Member c v\<close> is a reference to the \<^verbatim>\<open>m_value\<close> of
  the level whose \<^verbatim>\<open>s_index\<close> is \<open>Idx\<close>, which holds \<open>v\<close>; the function is a
  \<^verbatim>\<open>const\<close> member, so that \<^verbatim>\<open>std::move(m_value)\<close> is a reference to \<^verbatim>\<open>const\<close>
  (\<open>c\<close> is true). The anchor's \<^verbatim>\<open>get\<close> returns an \<^verbatim>\<open>int\<close> by value, \<open>Prvalue v\<close>.
  The other levels return \<^verbatim>\<open>auto&&\<close>: the level above the anchor binds the
  \<^verbatim>\<open>int\<close> to a reference, and the temporary is gone when that level returns,
  \<open>Dangling v\<close>; a reference returned by the base is passed on as it is.
\<close>

datatype got = Member bool val | Prvalue val | Dangling val

fun by_reference :: "got \<Rightarrow> got" where
  "by_reference (Prvalue v) = Dangling v"
| "by_reference r = r"

fun get :: "int \<Rightarrow> int \<Rightarrow> val list \<Rightarrow> got" where
  "get NDim Idx [] = Prvalue (VInt 0)"
| "get NDim Idx (m_value # super) =
     (if Idx = NDim - int (length super) then Member True m_value
      else by_reference (get NDim Idx super))"

text \<open>
  \<^verbatim>\<open>access<T, Idx>::type\<close>: \<open>T\<close> itself for the index 1, and otherwise
  \<^verbatim>\<open>access<typename T::super, Idx - 1>::type\<close>; the anchor declares no \<^verbatim>\<open>super\<close>.
\<close>

fun access :: "val list \<Rightarrow> int \<Rightarrow> error + val list" where
  "access [] Idx = (if Idx = 1 then Inr [] else Inl IllFormed)"
| "access (m_value # super) Idx =
     (if Idx = 1 then Inr (m_value # super) else access super (Idx - 1))"

text \<open>
  \<^verbatim>\<open>set<Idx>( arg_ )\<close> assigns \<^verbatim>\<open>std::move(arg_)\<close> to the member \<^verbatim>\<open>m_value\<close> of the
  level \<^verbatim>\<open>access<sized_tuple, Idx>::type\<close>, which the anchor does not have. The
  anchor's own \<^verbatim>\<open>set\<close> has an empty body; it is the one called on
  \<^verbatim>\<open>tuple<>\<close>, and every other level hides it. The type of the member assigned to
  is the type of the value it holds (lemmas \<open>sized_tuple_types\<close> and
  \<open>set_slot_types\<close>). (The name \<open>set\<close> is taken in HOL.)
\<close>

fun set_slot :: "int \<Rightarrow> ref \<Rightarrow> val list \<Rightarrow> memory \<Rightarrow> error + (val list \<times> memory)" where
  "set_slot Idx arg [] m = Inr ([], m)"
| "set_slot Idx arg (First # Types) m =
     (case access (First # Types) Idx of
        Inl e \<Rightarrow> Inl e
      | Inr [] \<Rightarrow> Inl IllFormed
      | Inr (m_value # super) \<Rightarrow>
          (case move_from arg m of
             Inl e \<Rightarrow> Inl e
           | Inr (v, m') \<Rightarrow>
               (case standard_conversion (type_of m_value) v of
                  Inl e \<Rightarrow> Inl e
                | Inr v' \<Rightarrow>
                    Inr (take (length Types - length super) (First # Types) @ v' # super, m'))))"

text \<open>
  Initializing an object from what \<^verbatim>\<open>get\<close> returns, as
  \<^verbatim>\<open>volatile auto tmp2 = tuple3.get<4>()\<close> does: the new object's value, and the value
  left in the object that the result refers to. Reading through a dangling reference is
  undefined.
\<close>

fun init_from :: "got \<Rightarrow> error + (val \<times> val)" where
  "init_from (Member c v) = move_value c v"
| "init_from (Prvalue v) = Inr (v, v)"
| "init_from (Dangling v) = Inl Undefined"

text \<open>
  A caller's sequence of \<^verbatim>\<open>set\<close> calls on one tuple, as \<^verbatim>\<open>main\<close> makes them: each
  call is the index and the argument, and an error of one call is the error of the
  sequence.
\<close>

fun set_slots :: "(int \<times> ref) list \<Rightarrow> val list \<Rightarrow> memory \<Rightarrow> error + (val list \<times> memory)" where
  "set_slots [] t m = Inr (t, m)"
| "set_slots ((Idx, arg) # calls) t m =
     (case set_slot Idx arg t m of
        Inl e \<Rightarrow> Inl e
      | Inr (t', m') \<Rightarrow> set_slots calls t' m')"

subsection \<open>Objects for concrete calls\<close>

text \<open>
  For the concrete calls below: \<open>obj a\<close> is a reference to the object at the address
  \<open>a\<close>, not const-qualified, and \<open>objects_of vs\<close> is the store that holds the values
  \<open>vs\<close> at the addresses 0, 1, ... (and \<^verbatim>\<open>int\<close> zeros elsewhere), with nothing
  consumed yet.
\<close>

definition obj :: "nat \<Rightarrow> ref" where
  "obj a = \<lparr>target = a, is_const = False\<rparr>"

definition objects_of :: "val list \<Rightarrow> memory" where
  "objects_of vs = \<lparr>objects = (\<lambda>a. if a < length vs then vs ! a else VInt 0), consumed = []\<rparr>"

section \<open>Properties\<close>

subsection \<open>Types, moves and conversions\<close>

lemma type_of_default_value: "type_of (default_value T) = T"
  by (cases T) simp_all

lemma left_behind_idem: "left_behind (left_behind v) = left_behind v"
  by (cases v) simp_all

lemma left_behind_other: "type_of v \<noteq> TUniquePtr \<Longrightarrow> left_behind v = v"
  by (cases v) simp_all

lemma type_of_left_behind: "type_of (left_behind v) = type_of v"
  by (cases v) simp_all

lemma standard_conversion_same: "type_of v = T \<Longrightarrow> standard_conversion T v = Inr v"
  by (simp add: standard_conversion_def)

lemma direct_init_same: "type_of v = T \<Longrightarrow> direct_init T v = Inr v"
  by (cases v) (auto simp: direct_init_def standard_conversion_def)

lemma type_of_from_int: "from_int T n = Inr w \<Longrightarrow> type_of w = T"
  by (cases T) auto

lemma type_of_from_double: "from_double T r = Inr w \<Longrightarrow> type_of w = T"
  by (cases T) (auto split: if_splits)

lemma type_of_standard_conversion: "standard_conversion T v = Inr w \<Longrightarrow> type_of w = T"
  by (cases v)
    (auto simp: standard_conversion_def type_of_from_int type_of_from_double split: if_splits)

lemma type_of_direct_init: "direct_init T v = Inr w \<Longrightarrow> type_of w = T"
  by (cases v) (auto simp: direct_init_def type_of_standard_conversion split: if_splits)

lemma move_from_Inr:
  "move_from r m = Inr (v, m') \<longleftrightarrow>
     \<not> (is_const r \<and> type_of (objects m (target r)) = TUniquePtr) \<and>
     v = objects m (target r) \<and>
     m' = m\<lparr>objects := (objects m)(target r := left_behind (objects m (target r)))\<rparr>"
  by (auto simp: move_from_def move_value_def)

lemma get_nth:
  "int (length t) \<le> NDim \<Longrightarrow>
   get NDim Idx t =
     (if NDim - int (length t) < Idx \<and> Idx \<le> NDim
      then Member True (t ! nat (Idx - (NDim - int (length t)) - 1))
      else if t = [] then Prvalue (VInt 0) else Dangling (VInt 0))"
proof (induction t)
  case Nil
  then show ?case by simp
next
  case (Cons a t)
  define d where "d = Idx - (NDim - int (length t))"
  have IH: "get NDim Idx t =
     (if 0 < d \<and> Idx \<le> NDim then Member True (t ! nat (d - 1))
      else if t = [] then Prvalue (VInt 0) else Dangling (VInt 0))"
    using Cons by (auto simp: d_def)
  have step: "get NDim Idx (a # t) =
      (if d = 0 then Member True a else by_reference (get NDim Idx t))"
    by (auto simp: d_def)
  have rhs: "Idx - (NDim - int (length (a # t))) - 1 = d"
    "NDim - int (length (a # t)) < Idx \<longleftrightarrow> 0 \<le> d"
    by (auto simp: d_def)
  have le: "d = 0 \<Longrightarrow> Idx \<le> NDim"
    using Cons.prems by (simp add: d_def)
  have nth: "0 < d \<Longrightarrow> (a # t) ! nat d = t ! nat (d - 1)"
    by (simp add: nth_Cons' nat_diff_distrib')
  show ?case
    unfolding rhs step IH using le nth by auto
qed

lemma tuple_get:
  "1 \<le> Idx \<Longrightarrow> Idx \<le> int (length t) \<Longrightarrow> get (int (length t)) Idx t = Member True (t ! nat (Idx - 1))"
  by (simp add: get_nth)

lemma tuple_get_out:
  "Idx < 1 \<or> int (length t) < Idx \<Longrightarrow>
   get (int (length t)) Idx t = (if t = [] then Prvalue (VInt 0) else Dangling (VInt 0))"
  by (auto simp add: get_nth)

lemma access_drop:
  "access t Idx =
     (if 1 \<le> Idx \<and> Idx \<le> int (length t) + 1 then Inr (drop (nat (Idx - 1)) t) else Inl IllFormed)"
proof (induction t arbitrary: Idx)
  case Nil
  then show ?case by auto
next
  case (Cons a t)
  show ?case
  proof (cases "Idx = 1")
    case True
    then show ?thesis by simp
  next
    case False
    have "drop (nat (Idx - 1)) (a # t) = drop (nat (Idx - 1 - 1)) t" if "2 \<le> Idx"
    proof -
      have "nat (Idx - 1) = Suc (nat (Idx - 1 - 1))" using that by simp
      then show ?thesis by simp
    qed
    with False show ?thesis
      by (auto simp: Cons.IH)
  qed
qed

lemma set_slot_update:
  assumes "1 \<le> Idx" "Idx \<le> int (length t)"
  shows "set_slot Idx arg t m =
     (case move_from arg m of
        Inl e \<Rightarrow> Inl e
      | Inr (v, m') \<Rightarrow>
          (case standard_conversion (type_of (t ! nat (Idx - 1))) v of
             Inl e \<Rightarrow> Inl e
           | Inr v' \<Rightarrow> Inr (t[nat (Idx - 1) := v'], m')))"
proof -
  obtain First Types where t: "t = First # Types"
    using assms by (cases t) auto
  define k where "k = nat (Idx - 1)"
  have k: "k < length t" using assms by (simp add: k_def)
  have acc: "access t Idx = Inr (t ! k # drop (Suc k) t)"
    using assms k by (simp add: access_drop k_def Cons_nth_drop_Suc)
  have upd: "take (length Types - length (drop (Suc k) t)) t @ w # drop (Suc k) t = t[k := w]" for w
  proof -
    have "length Types - length (drop (Suc k) t) = k"
      using k by (simp add: t)
    then show ?thesis
      using k by (simp add: upd_conv_take_nth_drop)
  qed
  show ?thesis
    using acc upd unfolding t k_def [symmetric]
    by (simp split: sum.splits prod.splits)
qed

lemma set_slot_out_of_range:
  "t \<noteq> [] \<Longrightarrow> Idx < 1 \<or> int (length t) < Idx \<Longrightarrow> set_slot Idx arg t m = Inl IllFormed"
  by (cases t) (auto simp: access_drop simp del: access.simps)

subsection \<open>\<^verbatim>\<open>get\<close> and \<^verbatim>\<open>set\<close>\<close>

lemma set_slot_length: "set_slot Idx arg t m = Inr (t', m') \<Longrightarrow> length t' = length t"
proof (cases "t = []")
  case True
  assume "set_slot Idx arg t m = Inr (t', m')"
  with True show ?thesis by simp
next
  case False
  assume ok: "set_slot Idx arg t m = Inr (t', m')"
  have "1 \<le> Idx \<and> Idx \<le> int (length t)"
    using set_slot_out_of_range [OF False, of Idx arg m] ok by fastforce
  with ok show ?thesis
    by (auto simp: set_slot_update split: sum.splits prod.splits)
qed

lemma set_slot_other:
  assumes "set_slot Idx arg t m = Inr (t', m')" and "j \<noteq> Idx"
  shows "get (int (length t')) j t' = get (int (length t)) j t"
proof (cases "t = []")
  case True
  with assms show ?thesis by simp
next
  case False
  have r: "1 \<le> Idx \<and> Idx \<le> int (length t)"
    using set_slot_out_of_range [OF False, of Idx arg m] assms(1) by fastforce
  then obtain w where t': "t' = t[nat (Idx - 1) := w]"
    using assms(1) by (auto simp: set_slot_update split: sum.splits prod.splits)
  have "nat (j - 1) \<noteq> nat (Idx - 1)" if "1 \<le> j"
    using that r assms(2) by arith
  then show ?thesis
    by (auto simp: t' get_nth)
qed

lemma set_slots_other:
  "set_slots calls t m = Inr (t', m') \<Longrightarrow> \<forall>c\<in>set calls. fst c \<noteq> j \<Longrightarrow>
   length t' = length t \<and> get (int (length t')) j t' = get (int (length t)) j t"
proof (induction calls arbitrary: t m)
  case Nil
  then show ?case by simp
next
  case (Cons c calls)
  obtain Idx arg where c: "c = (Idx, arg)" by (cases c)
  from Cons.prems(1) obtain t1 m1 where
    one: "set_slot Idx arg t m = Inr (t1, m1)" and rest: "set_slots calls t1 m1 = Inr (t', m')"
    by (auto simp: c split: sum.splits)
  have "j \<noteq> Idx" using Cons.prems(2) by (auto simp: c)
  from set_slot_other [OF one this] set_slot_length [OF one]
  have a: "length t1 = length t" "get (int (length t1)) j t1 = get (int (length t)) j t"
    by simp_all
  have "\<forall>c\<in>set calls. fst c \<noteq> j" using Cons.prems(2) by simp
  from Cons.IH [OF rest this]
  have b: "length t' = length t1" "get (int (length t')) j t' = get (int (length t1)) j t1"
    by blast+
  show ?case using a b by simp
qed

subsection \<open>The initializer \<^verbatim>\<open>initialize\<close> returns from\<close>

lemma initialize_selected:
  "initialize N First x m =
     (case selected N x of
        None \<Rightarrow> Inr (default_value First, m)
      | Some p \<Rightarrow> move_from (value_ref p) (m\<lparr>consumed := p # consumed m\<rparr>))"
  by (induction x) (auto simp: selected_def)

lemma selected_in: "selected N x = Some p \<Longrightarrow> p \<in> set x \<and> index p = N"
  by (auto simp: selected_def find_Some_iff)

lemma selected_unique:
  "distinct (map index x) \<Longrightarrow> p \<in> set x \<Longrightarrow> selected (index p) x = Some p"
  by (induction x) (auto simp: selected_def)

lemma selected_mset:
  assumes "mset x = mset y" and "distinct (map index x)"
  shows "selected N x = selected N y"
proof -
  have sets: "set x = set y" using assms(1) by (rule mset_eq_setD)
  have "mset (map index x) = mset (map index y)" using assms(1) by simp
  then have dy: "distinct (map index y)"
    using assms(2) mset_eq_imp_distinct_iff by blast
  show ?thesis
  proof (cases "selected N x")
    case None
    then have "\<forall>p\<in>set y. index p \<noteq> N"
      using sets by (auto simp: selected_def find_None_iff)
    then have "selected N y = None"
      by (auto simp: selected_def find_None_iff)
    with None show ?thesis by simp
  next
    case (Some p)
    then have "p \<in> set y" "index p = N"
      using selected_in [OF Some] sets by auto
    then show ?thesis
      using Some selected_unique [OF dy] by auto
  qed
qed

lemma selected_append:
  "selected N (xs @ ys) = (case selected N xs of None \<Rightarrow> selected N ys | Some p \<Rightarrow> Some p)"
  by (induction xs) (auto simp: selected_def)

lemma selected_filter:
  "N \<noteq> k \<Longrightarrow> selected N (filter (\<lambda>q. index q \<noteq> k) xs) = selected N xs"
  by (induction xs) (auto simp: selected_def)

lemma selected_Cons_same: "selected (index p) (p # xs) = Some p"
  by (simp add: selected_def)

lemma selected_Cons_other: "index p \<noteq> N \<Longrightarrow> selected N (p # xs) = selected N xs"
  by (simp add: selected_def)

lemma selected_later_ignored:
  "selected N (pre @ p # filter (\<lambda>q. index q \<noteq> index p) post) = selected N (pre @ p # post)"
proof (cases "N = index p")
  case True
  then show ?thesis
    by (simp add: selected_append selected_Cons_same split: option.splits)
next
  case False
  then show ?thesis
    by (simp add: selected_append selected_Cons_other selected_filter split: option.splits)
qed

lemma sized_tuple_cong:
  assumes "\<And>N. selected N x = selected N y"
  shows "sized_tuple NDim Types x m = sized_tuple NDim Types y m"
proof (induction Types)
  case Nil
  show ?case by simp
next
  case (Cons First Types)
  have "initialize N First x m1 = initialize N First y m1" for N m1
    by (simp add: initialize_selected assms)
  with Cons show ?case by (simp split: sum.splits prod.splits)
qed

subsection \<open>The constructor\<close>

lemma move_from_consumed: "move_from r m = Inr (v, m') \<Longrightarrow> consumed m' = consumed m"
  by (auto simp: move_from_Inr)

lemma initialize_consumed:
  assumes "initialize N First x m = Inr (v, m')"
  shows "consumed m' = (case selected N x of None \<Rightarrow> [] | Some p \<Rightarrow> [p]) @ consumed m"
  using assms by (auto simp: initialize_selected move_from_Inr split: option.splits)

lemma sized_tuple_consumed:
  "sized_tuple NDim Types x m = Inr (t, m') \<Longrightarrow>
   \<exists>new. consumed m' = new @ consumed m \<and> distinct (map index new) \<and>
     (\<forall>p\<in>set new. p \<in> set x \<and> NDim - int (length Types) < index p \<and> index p \<le> NDim)"
proof (induction Types arbitrary: t m')
  case Nil
  then show ?case by simp
next
  case (Cons First Types)
  from Cons.prems obtain super m1 v where
    sub: "sized_tuple NDim Types x m = Inr (super, m1)" and
    ini: "initialize (NDim - int (length Types)) First x m1 = Inr (v, m')"
    by (auto split: sum.splits)
  from Cons.IH [OF sub] obtain new where
    new: "consumed m1 = new @ consumed m" "distinct (map index new)"
      "\<forall>p\<in>set new. p \<in> set x \<and> NDim - int (length Types) < index p \<and> index p \<le> NDim"
    by blast
  show ?case
  proof (cases "selected (NDim - int (length Types)) x")
    case None
    with initialize_consumed [OF ini] new show ?thesis by auto
  next
    case (Some p)
    with initialize_consumed [OF ini] new(1)
    have c: "consumed m' = (p # new) @ consumed m" by simp
    have p: "p \<in> set x" "index p = NDim - int (length Types)"
      using selected_in [OF Some] by simp_all
    have "distinct (map index (p # new))"
      using new(2,3) p by auto
    moreover have "\<forall>q\<in>set (p # new). q \<in> set x \<and>
        NDim - int (length (First # Types)) < index q \<and> index q \<le> NDim"
      using new(3) p by auto
    ultimately show ?thesis using c by blast
  qed
qed

lemma sized_tuple_objects:
  "sized_tuple NDim Types x m = Inr (t, m') \<Longrightarrow>
   objects m' a =
     (if \<exists>i p. NDim - int (length Types) < i \<and> i \<le> NDim \<and> selected i x = Some p \<and>
           target (value_ref p) = a
      then left_behind (objects m a) else objects m a)"
proof (induction Types arbitrary: t m')
  case Nil
  then show ?case by auto
next
  case (Cons First Types)
  define j where "j = NDim - int (length Types)"
  define old where "old \<longleftrightarrow> (\<exists>i p. j < i \<and> i \<le> NDim \<and> selected i x = Some p \<and>
      target (value_ref p) = a)"
  define new where "new \<longleftrightarrow> (\<exists>i p. NDim - int (length (First # Types)) < i \<and> i \<le> NDim \<and>
      selected i x = Some p \<and> target (value_ref p) = a)"
  from Cons.prems obtain super m1 v where
    sub: "sized_tuple NDim Types x m = Inr (super, m1)" and
    ini: "initialize j First x m1 = Inr (v, m')"
    by (auto simp: j_def split: sum.splits)
  have IH: "objects m1 a = (if old then left_behind (objects m a) else objects m a)"
    using Cons.IH [OF sub] by (simp add: old_def j_def)
  have range: "NDim - int (length (First # Types)) < i \<longleftrightarrow> i = j \<or> j < i" for i
    by (auto simp: j_def)
  have "j \<le> NDim" by (simp add: j_def)
  then have new_eq: "new \<longleftrightarrow> old \<or> (\<exists>p. selected j x = Some p \<and> target (value_ref p) = a)"
    unfolding new_def old_def range by auto
  have "objects m' a = (if new then left_behind (objects m a) else objects m a)"
  proof (cases "selected j x")
    case None
    then have "m' = m1" using ini by (simp add: initialize_selected)
    with None IH new_eq show ?thesis by simp
  next
    case (Some p)
    then have "objects m' =
        (objects m1)(target (value_ref p) := left_behind (objects m1 (target (value_ref p))))"
      using ini by (auto simp: initialize_selected move_from_Inr)
    with Some IH new_eq show ?thesis
      by (cases "target (value_ref p) = a") (auto simp: left_behind_idem)
  qed
  then show ?case by (simp add: new_def)
qed

lemma sized_tuple_object_type:
  "sized_tuple NDim Types x m = Inr (t, m') \<Longrightarrow> type_of (objects m' a) = type_of (objects m a)"
  by (simp add: sized_tuple_objects type_of_left_behind)

lemma sized_tuple_length:
  "sized_tuple NDim Types x m = Inr (t, m') \<Longrightarrow> length t = length Types"
  by (induction Types arbitrary: t m') (auto split: sum.splits)

lemma sized_tuple_types:
  "sized_tuple NDim Types x m = Inr (t, m') \<Longrightarrow> map type_of t = Types"
  by (induction Types arbitrary: t m') (auto split: sum.splits simp: type_of_direct_init)

lemma sized_tuple_nth:
  "sized_tuple NDim Types x m = Inr (t, m') \<Longrightarrow> k < length Types \<Longrightarrow>
   \<exists>t1 m1 v m2. sized_tuple NDim (drop (Suc k) Types) x m = Inr (t1, m1) \<and>
      initialize (NDim - int (length Types) + 1 + int k) (Types ! k) x m1 = Inr (v, m2) \<and>
      direct_init (Types ! k) v = Inr (t ! k)"
proof (induction Types arbitrary: t m' k)
  case Nil
  then show ?case by simp
next
  case (Cons First Types)
  from Cons.prems(1) obtain super m1 v m_value where
    sub: "sized_tuple NDim Types x m = Inr (super, m1)" and
    ini: "initialize (NDim - int (length Types)) First x m1 = Inr (v, m')" and
    dir: "direct_init First v = Inr m_value" and t: "t = m_value # super"
    by (auto split: sum.splits)
  show ?case
  proof (cases k)
    case 0
    with sub ini dir t show ?thesis by simp
  next
    case (Suc k')
    then have "k' < length Types" using Cons.prems(2) by simp
    from Cons.IH [OF sub this] Suc t show ?thesis
      by (simp add: algebra_simps)
  qed
qed

lemma sized_tuple_succeeds:
  assumes "\<And>i p. NDim - int (length Types) < i \<Longrightarrow> i \<le> NDim \<Longrightarrow> selected i x = Some p \<Longrightarrow>
      type_of (objects m (target (value_ref p))) = Types ! nat (i - (NDim - int (length Types)) - 1) \<and>
      (type_of (objects m (target (value_ref p))) = TUniquePtr \<longrightarrow> \<not> is_const (value_ref p))"
  shows "\<exists>t m'. sized_tuple NDim Types x m = Inr (t, m')"
  using assms
proof (induction Types)
  case Nil
  show ?case by simp
next
  case (Cons First Types)
  define j where "j = NDim - int (length Types)"
  have "\<exists>t m'. sized_tuple NDim Types x m = Inr (t, m')"
  proof (rule Cons.IH)
    fix i p
    assume i: "NDim - int (length Types) < i" "i \<le> NDim" "selected i x = Some p"
    have "nat (i - (NDim - int (length (First # Types))) - 1) =
        Suc (nat (i - (NDim - int (length Types)) - 1))"
      using i(1) by simp
    with Cons.prems [of i p] i
    show "type_of (objects m (target (value_ref p))) = Types ! nat (i - (NDim - int (length Types)) - 1) \<and>
      (type_of (objects m (target (value_ref p))) = TUniquePtr \<longrightarrow> \<not> is_const (value_ref p))"
      by simp
  qed
  then obtain super m1 where sub: "sized_tuple NDim Types x m = Inr (super, m1)"
    by blast
  have "\<exists>v m2. initialize j First x m1 = Inr (v, m2) \<and> type_of v = First"
  proof (cases "selected j x")
    case None
    then show ?thesis by (simp add: initialize_selected type_of_default_value)
  next
    case (Some p)
    have "type_of (objects m (target (value_ref p))) = First \<and>
      (type_of (objects m (target (value_ref p))) = TUniquePtr \<longrightarrow> \<not> is_const (value_ref p))"
      using Cons.prems [of j p] Some by (simp add: j_def)
    then show ?thesis
      using Some sized_tuple_object_type [OF sub]
      by (auto simp: initialize_selected move_from_Inr)
  qed
  then obtain v m2 where "initialize j First x m1 = Inr (v, m2)" "direct_init First v = Inr v"
    by (auto simp: direct_init_same)
  with sub show ?case by (simp add: j_def)
qed

lemma slot_default:
  assumes "sized_tuple (int (length T)) T x m = Inr (t, m')"
    and "1 \<le> i" and "i \<le> int (length T)" and "selected i x = None"
  shows "t ! nat (i - 1) = default_value (T ! nat (i - 1))"
proof -
  define k where "k = nat (i - 1)"
  have k: "k < length T" "i = int (length T) - int (length T) + 1 + int k"
    using assms(2,3) by (simp_all add: k_def)
  from sized_tuple_nth [OF assms(1) k(1)] obtain t1 m1 v m2 where
    "initialize i (T ! k) x m1 = Inr (v, m2)" "direct_init (T ! k) v = Inr (t ! k)"
    using k(2) by auto
  then show ?thesis
    unfolding k_def [symmetric]
    using assms(4) by (auto simp: initialize_selected direct_init_same type_of_default_value)
qed

lemma slot_selected:
  assumes ok: "sized_tuple (int (length T)) T x m = Inr (t, m')"
    and i: "1 \<le> i" "i \<le> int (length T)" and sel: "selected i x = Some p"
    and share: "\<forall>q\<in>set x. index q \<noteq> i \<and> target (value_ref q) = target (value_ref p) \<longrightarrow>
        type_of (objects m (target (value_ref p))) \<noteq> TUniquePtr"
  shows "direct_init (T ! nat (i - 1)) (objects m (target (value_ref p))) = Inr (t ! nat (i - 1))"
proof -
  define N where "N = int (length T)"
  define k where "k = nat (i - 1)"
  have k: "k < length T" "i = N - int (length T) + 1 + int k"
    using i by (simp_all add: k_def N_def)
  from sized_tuple_nth [OF ok k(1)] obtain t1 m1 v m2 where
    sub: "sized_tuple N (drop (Suc k) T) x m = Inr (t1, m1)" and
    ini: "initialize i (T ! k) x m1 = Inr (v, m2)" and
    dir: "direct_init (T ! k) v = Inr (t ! k)"
    using k(2) by (auto simp: N_def)
  have v: "v = objects m1 (target (value_ref p))"
    using ini sel by (auto simp: initialize_selected move_from_Inr)
  have "objects m1 (target (value_ref p)) = objects m (target (value_ref p))"
  proof (cases "type_of (objects m (target (value_ref p))) = TUniquePtr")
    case False
    then show ?thesis
      by (simp add: sized_tuple_objects [OF sub] left_behind_other)
  next
    case True
    have "\<not> (\<exists>i' q. N - int (length (drop (Suc k) T)) < i' \<and> i' \<le> N \<and>
        selected i' x = Some q \<and> target (value_ref q) = target (value_ref p))"
    proof
      assume "\<exists>i' q. N - int (length (drop (Suc k) T)) < i' \<and> i' \<le> N \<and>
        selected i' x = Some q \<and> target (value_ref q) = target (value_ref p)"
      then obtain i' q where q: "N - int (length (drop (Suc k) T)) < i'"
        "selected i' x = Some q" "target (value_ref q) = target (value_ref p)"
        by blast
      have "i < i'" using q(1) k by (simp add: N_def)
      moreover have "q \<in> set x" "index q = i'" using selected_in [OF q(2)] by simp_all
      ultimately show False using share q(3) True by fastforce
    qed
    then show ?thesis
      by (subst sized_tuple_objects [OF sub]) (simp only: if_False)
  qed
  with v dir show ?thesis by (simp add: k_def)
qed

lemma moved_earlier_iff:
  "moved_earlier NDim x i a \<longleftrightarrow>
     (\<exists>j q. i < j \<and> j \<le> NDim \<and> selected j x = Some q \<and> target (value_ref q) = a)"
proof
  assume "moved_earlier NDim x i a"
  then obtain j where j: "j \<in> set [i + 1..NDim]"
    and c: "case selected j x of None \<Rightarrow> False | Some q \<Rightarrow> target (value_ref q) = a"
    by (auto simp: moved_earlier_def list_ex_iff)
  from c obtain q where "selected j x = Some q" "target (value_ref q) = a"
    by (cases "selected j x") auto
  moreover have "i < j" "j \<le> NDim" using j by simp_all
  ultimately show "\<exists>j q. i < j \<and> j \<le> NDim \<and> selected j x = Some q \<and> target (value_ref q) = a"
    by blast
next
  assume "\<exists>j q. i < j \<and> j \<le> NDim \<and> selected j x = Some q \<and> target (value_ref q) = a"
  then obtain j q where "i < j" "j \<le> NDim" "selected j x = Some q" "target (value_ref q) = a"
    by blast
  then have "j \<in> set [i + 1..NDim]"
    "case selected j x of None \<Rightarrow> False | Some q \<Rightarrow> target (value_ref q) = a"
    by simp_all
  then show "moved_earlier NDim x i a"
    unfolding moved_earlier_def list_ex_iff by blast
qed

text \<open>
  The slot \<open>i\<close> exactly: it is initialized from what the object of its initializer holds
  at that moment, which is what a move left of it when a slot initialized before was
  initialized from the same object.
\<close>

lemma slot_selected_exact:
  assumes ok: "sized_tuple (int (length T)) T x m = Inr (t, m')"
    and i: "1 \<le> i" "i \<le> int (length T)" and sel: "selected i x = Some p"
  shows "direct_init (T ! nat (i - 1))
           (if moved_earlier (int (length T)) x i (target (value_ref p))
            then left_behind (objects m (target (value_ref p)))
            else objects m (target (value_ref p))) = Inr (t ! nat (i - 1))"
proof -
  define N where "N = int (length T)"
  define k where "k = nat (i - 1)"
  have k: "k < length T" "i = N - int (length T) + 1 + int k"
    using i by (simp_all add: k_def N_def)
  from sized_tuple_nth [OF ok k(1)] obtain t1 m1 v m2 where
    sub: "sized_tuple N (drop (Suc k) T) x m = Inr (t1, m1)" and
    ini: "initialize i (T ! k) x m1 = Inr (v, m2)" and
    dir: "direct_init (T ! k) v = Inr (t ! k)"
    using k(2) by (auto simp: N_def)
  have v: "v = objects m1 (target (value_ref p))"
    using ini sel by (auto simp: initialize_selected move_from_Inr)
  have low: "N - int (length (drop (Suc k) T)) = i"
    using k by (simp add: N_def)
  have "objects m1 (target (value_ref p)) =
      (if moved_earlier N x i (target (value_ref p))
       then left_behind (objects m (target (value_ref p)))
       else objects m (target (value_ref p)))"
    unfolding moved_earlier_iff sized_tuple_objects [OF sub] low ..
  with v dir show ?thesis by (simp add: k_def N_def)
qed

text \<open>
  The construction compiles when every initializer with an index in \<open>1..N\<close> refers to an
  object of its slot's declared type, and none refers to a \<^verbatim>\<open>const\<close> owning pointer.
\<close>

lemma construction_compiles:
  assumes "\<forall>p\<in>set x. 1 \<le> index p \<and> index p \<le> int (length T) \<longrightarrow>
        type_of (objects m (target (value_ref p))) = T ! nat (index p - 1)"
    and "\<forall>p\<in>set x. type_of (objects m (target (value_ref p))) = TUniquePtr \<longrightarrow>
        \<not> is_const (value_ref p)"
  shows "\<exists>t m'. tuple T x m = Inr (t, m')"
  unfolding tuple_def
proof (rule sized_tuple_succeeds)
  fix i p
  assume "int (length T) - int (length T) < i" "i \<le> int (length T)" "selected i x = Some p"
  then show "type_of (objects m (target (value_ref p))) =
      T ! nat (i - (int (length T) - int (length T)) - 1) \<and>
    (type_of (objects m (target (value_ref p))) = TUniquePtr \<longrightarrow> \<not> is_const (value_ref p))"
    using assms selected_in [of i x p] by auto
qed

lemma set_slot_in_range:
  "set_slot i arg t m = Inr (t', m') \<Longrightarrow> t \<noteq> [] \<Longrightarrow> 1 \<le> i \<and> i \<le> int (length t)"
  using set_slot_out_of_range [of t i arg m] by fastforce

lemma standard_conversion_unique:
  "standard_conversion T (VUniquePtr u) = Inr w \<Longrightarrow> T = TUniquePtr \<and> w = VUniquePtr u"
  by (auto simp: standard_conversion_def split: if_splits)

lemma set_slot_types:
  assumes "set_slot i arg t m = Inr (t', m')"
  shows "map type_of t' = map type_of t"
proof (cases "t = []")
  case True
  with assms show ?thesis by simp
next
  case False
  then have i: "1 \<le> i" "i \<le> int (length t)"
    using set_slot_in_range [OF assms] by simp_all
  from assms obtain v w where
    "standard_conversion (type_of (t ! nat (i - 1))) v = Inr w" "t' = t[nat (i - 1) := w]"
    by (auto simp: set_slot_update [OF i] split: sum.splits prod.splits)
  then show ?thesis
    using i by (simp add: map_update type_of_standard_conversion list_update_same_conv)
qed

subsection \<open>Two constructions\<close>

text \<open>
  The \<^verbatim>\<open>tuple2\<close> of \<^verbatim>\<open>main\<close>, \<^verbatim>\<open>tuple<bool, short, std::unique_ptr<std::string>>
  tuple2( pos<1>( false ), pos<2>( 4 ), pos<3>( std::make_unique<std::string>(
  std::string( "pink pig" ) ) ) )\<close>: the \<^verbatim>\<open>int\<close> 4 is converted to the \<^verbatim>\<open>short\<close> of
  its slot. And \<^verbatim>\<open>tuple<int> t( pos<1>( 3.14 ) )\<close>: the slot holds 3.
\<close>

lemma tuple2_of_main:
  "map_sum id fst (tuple [TBool, TShort, TUniquePtr] [pos 1 (obj 0), pos 2 (obj 1), pos 3 (obj 2)]
      (objects_of [VBool False, VInt 4, VUniquePtr (Some ''pink pig'')])) =
   Inr [VBool False, VShort 4, VUniquePtr (Some ''pink pig'')]"
  by (simp add: tuple_def pos_def obj_def objects_of_def move_from_def move_value_def
      direct_init_def standard_conversion_def)

lemma converted_initializer:
  "map_sum id fst (tuple [TInt] [pos 1 (obj 0)] (objects_of [VDouble 3.14])) = Inr [VInt 3]"
  by (simp add: tuple_def pos_def obj_def objects_of_def move_from_def move_value_def
      direct_init_def standard_conversion_def truncated_def in_range_def)

section \<open>The claims\<close>

subsection \<open>Construction\<close>

text \<open>
  C1. Construction from initializers for a subset of the slots. The claim as stated
  fails where one owning pointer is supplied for two slots (the counterexample after
  the theorem), so the theorem is the amended claim. For any slot types \<open>T\<close>,
  initializers \<open>x\<close> and store \<open>m\<close> for which the construction compiles, and every slot
  \<open>i\<close> in \<open>1..N\<close>, \<^verbatim>\<open>get<i>()\<close> is
  \<^item> the default-constructed value of the slot's declared type, when no initializer has
    the index \<open>i\<close>;
  \<^item> otherwise what the object of the first initializer with the index \<open>i\<close> holds when
    the slot is initialized, converted to the slot's declared type: the value of that
    object in \<open>m\<close>, or what a move leaves of that value (\<open>left_behind\<close>) when a slot
    with a greater index, which is initialized before, is initialized from the same
    object (\<open>moved_earlier\<close>);
  \<^item> and so the value of that object in \<open>m\<close> itself, when it has the slot's declared
    type (it is another value otherwise: lemma \<open>converted_initializer\<close>) and either no
    slot with a greater index is initialized from the same object or a move leaves
    the value as it is, as it does for every element type but the owning pointer.

  The condition is about the slot \<open>i\<close> and the object of its initializer alone: an
  initializer with an index outside \<open>1..N\<close> initializes no slot and takes nothing from
  its object, and what the initializers of other slots share does not matter. The
  construction does compile when every initializer with an index in \<open>1..N\<close> refers to
  an object of its slot's declared type, none of them a \<^verbatim>\<open>const\<close> owning pointer
  (lemma \<open>construction_compiles\<close>).
\<close>

theorem construction_fills_slots:
  assumes "tuple T x m = Inr (t, m')" and "1 \<le> i" and "i \<le> int (length T)"
  shows "\<exists>v. get (int (length T)) i t = Member True v \<and>
     (case selected i x of
        None \<Rightarrow> v = default_value (T ! nat (i - 1))
      | Some p \<Rightarrow>
          direct_init (T ! nat (i - 1))
            (if moved_earlier (int (length T)) x i (target (value_ref p))
             then left_behind (objects m (target (value_ref p)))
             else objects m (target (value_ref p))) = Inr v \<and>
          ((\<not> moved_earlier (int (length T)) x i (target (value_ref p)) \<or>
            left_behind (objects m (target (value_ref p))) = objects m (target (value_ref p))) \<and>
           type_of (objects m (target (value_ref p))) = T ! nat (i - 1) \<longrightarrow>
             v = objects m (target (value_ref p))))"
proof -
  have ok: "sized_tuple (int (length T)) T x m = Inr (t, m')"
    using assms(1) by (simp add: tuple_def)
  have len: "length t = length T" using ok by (rule sized_tuple_length)
  have get: "get (int (length T)) i t = Member True (t ! nat (i - 1))"
    using tuple_get [of i t] assms(2,3) len by simp
  show ?thesis
  proof (cases "selected i x")
    case None
    with slot_default [OF ok assms(2,3) None] get show ?thesis by simp
  next
    case (Some p)
    define a where "a = target (value_ref p)"
    from slot_selected_exact [OF ok assms(2,3) Some]
    have d: "direct_init (T ! nat (i - 1))
           (if moved_earlier (int (length T)) x i a then left_behind (objects m a)
            else objects m a) = Inr (t ! nat (i - 1))"
      unfolding a_def .
    have "t ! nat (i - 1) = objects m a"
      if "\<not> moved_earlier (int (length T)) x i a \<or> left_behind (objects m a) = objects m a"
        and "type_of (objects m a) = T ! nat (i - 1)"
    proof -
      have "direct_init (T ! nat (i - 1)) (objects m a) = Inr (t ! nat (i - 1))"
        using d that(1) by (auto split: if_splits)
      then show ?thesis using that(2) by (simp add: direct_init_same)
    qed
    then have "(\<not> moved_earlier (int (length T)) x i a \<or>
            left_behind (objects m a) = objects m a) \<and>
           type_of (objects m a) = T ! nat (i - 1) \<longrightarrow>
             t ! nat (i - 1) = objects m a"
      by blast
    with d get have "\<exists>v. get (int (length T)) i t = Member True v \<and>
          direct_init (T ! nat (i - 1))
            (if moved_earlier (int (length T)) x i a then left_behind (objects m a)
             else objects m a) = Inr v \<and>
          ((\<not> moved_earlier (int (length T)) x i a \<or>
            left_behind (objects m a) = objects m a) \<and>
           type_of (objects m a) = T ! nat (i - 1) \<longrightarrow>
             v = objects m a)"
      by blast
    then show ?thesis unfolding a_def Some by simp
  qed
qed

text \<open>
  The theorem at the \<^verbatim>\<open>ctuple\<close> of \<^verbatim>\<open>main\<close>, where slot 3 holds the \<^verbatim>\<open>3.14\<close>
  supplied for it and slot 4, which has no initializer, holds \<^verbatim>\<open>int()\<close>; and at a tuple
  of two owning pointers with one pointer \<open>p\<close> supplied as \<^verbatim>\<open>pos<1>( p ), pos<2>( p ),
  pos<7>( p )\<close>, where slot 2 owns the string and slot 1 holds what the move left in
  \<open>p\<close>, which is null.
\<close>

theorem construction_fills_slots_witness:
  "(\<exists>t m'. tuple [TBool, TChar, TDouble, TInt] [pos 1 (obj 0), pos 3 (obj 1), pos 2 (obj 2)]
       (objects_of [VBool False, VDouble 3.14, VChar 109]) = Inr (t, m') \<and>
     get 4 3 t = Member True (VDouble 3.14) \<and> get 4 4 t = Member True (VInt 0)) \<and>
   (\<exists>t m'. tuple [TUniquePtr, TUniquePtr] [pos 1 (obj 0), pos 2 (obj 0), pos 7 (obj 0)]
       (objects_of [VUniquePtr (Some ''pink pig'')]) = Inr (t, m') \<and>
     get 2 2 t = Member True (VUniquePtr (Some ''pink pig'')) \<and>
     get 2 1 t = Member True (VUniquePtr None))"
proof -
  define T where "T = [TBool, TChar, TDouble, TInt]"
  define x where "x = [pos 1 (obj 0), pos 3 (obj 1), pos 2 (obj 2)]"
  define m where "m = objects_of [VBool False, VDouble 3.14, VChar 109]"
  have "\<exists>t m'. tuple T x m = Inr (t, m')"
    by (rule construction_compiles) (simp_all add: x_def m_def T_def pos_def obj_def objects_of_def)
  then obtain t m' where ok: "tuple T x m = Inr (t, m')" by blast
  have s3: "selected 3 x = Some (pos 3 (obj 1))" and s4: "selected 4 x = None"
    by (simp_all add: selected_def x_def pos_def)
  have e3: "\<not> moved_earlier (int (length T)) x 3 (target (value_ref (pos 3 (obj 1))))"
    by (simp add: moved_earlier_def T_def selected_def x_def pos_def obj_def)
  from construction_fills_slots [OF ok, of 3]
  have g3: "get 4 3 t = Member True (VDouble 3.14)"
    unfolding s3 using e3 by (auto simp: T_def m_def pos_def obj_def objects_of_def)
  from construction_fills_slots [OF ok, of 4]
  have g4: "get 4 4 t = Member True (VInt 0)"
    unfolding s4 by (auto simp: T_def)
  have one: "\<exists>t m'. tuple T x m = Inr (t, m') \<and>
     get 4 3 t = Member True (VDouble 3.14) \<and> get 4 4 t = Member True (VInt 0)"
    using ok g3 g4 by blast
  define U where "U = [TUniquePtr, TUniquePtr]"
  define y where "y = [pos 1 (obj 0), pos 2 (obj 0), pos 7 (obj 0)]"
  define n where "n = objects_of [VUniquePtr (Some ''pink pig'')]"
  have "\<exists>t m'. tuple U y n = Inr (t, m')"
    by (rule construction_compiles) (simp_all add: y_def n_def U_def pos_def obj_def objects_of_def)
  then obtain u n' where ok2: "tuple U y n = Inr (u, n')" by blast
  have s1: "selected 1 y = Some (pos 1 (obj 0))" and s2: "selected 2 y = Some (pos 2 (obj 0))"
    by (simp_all add: selected_def y_def pos_def)
  have e1: "moved_earlier (int (length U)) y 1 (target (value_ref (pos 1 (obj 0))))"
    and e2: "\<not> moved_earlier (int (length U)) y 2 (target (value_ref (pos 2 (obj 0))))"
    by (simp_all add: moved_earlier_def U_def selected_def y_def pos_def obj_def)
  from construction_fills_slots [OF ok2, of 2]
  have h2: "get 2 2 u = Member True (VUniquePtr (Some ''pink pig''))"
    unfolding s2 using e2 by (auto simp: U_def n_def pos_def obj_def objects_of_def)
  from construction_fills_slots [OF ok2, of 1]
  have h1: "get 2 1 u = Member True (VUniquePtr None)"
    unfolding s1 using e1
    by (auto simp: U_def n_def pos_def obj_def objects_of_def direct_init_def standard_conversion_def)
  have two: "\<exists>t m'. tuple U y n = Inr (t, m') \<and>
     get 2 2 t = Member True (VUniquePtr (Some ''pink pig'')) \<and>
     get 2 1 t = Member True (VUniquePtr None)"
    using ok2 h1 h2 by blast
  show ?thesis
    using one two unfolding T_def x_def m_def U_def y_def n_def by (rule conjI)
qed

text \<open>
  The claim as stated is false for \<^verbatim>\<open>auto p = std::make_unique<std::string>("pink pig");
  tuple<std::unique_ptr<std::string>, std::unique_ptr<std::string>> t( pos<1>( p ),
  pos<2>( p ) )\<close>: the base, slot 2, is initialized first and takes the string out of
  \<open>p\<close>; slot 1 is then move-constructed from the null \<open>p\<close>, and does not hold the value
  supplied for it.
\<close>

theorem shared_owning_pointer_counterexample:
  "objects (objects_of [VUniquePtr (Some ''pink pig'')]) 0 = VUniquePtr (Some ''pink pig'') \<and>
   map_sum id fst (tuple [TUniquePtr, TUniquePtr] [pos 1 (obj 0), pos 2 (obj 0)]
       (objects_of [VUniquePtr (Some ''pink pig'')])) =
     Inr [VUniquePtr None, VUniquePtr (Some ''pink pig'')] \<and>
   get 2 1 [VUniquePtr None, VUniquePtr (Some ''pink pig'')] = Member True (VUniquePtr None) \<and>
   get 2 1 [VUniquePtr None, VUniquePtr (Some ''pink pig'')] \<noteq>
     Member True (objects (objects_of [VUniquePtr (Some ''pink pig'')]) 0)"
  by (simp add: tuple_def pos_def obj_def objects_of_def move_from_def move_value_def
      direct_init_def standard_conversion_def)

text \<open>
  C2. Order-independence: for initializers with pairwise distinct indices, the
  construction from any permutation of them has the same result, the same tuple and the
  same store, or is rejected alike.
\<close>

theorem construction_order_independent:
  assumes "mset x = mset y" and "distinct (map index x)"
  shows "tuple T x m = tuple T y m"
  unfolding tuple_def by (rule sized_tuple_cong) (rule selected_mset [OF assms])

text \<open>
  The theorem at the initializers of \<^verbatim>\<open>ctuple\<close> and a permutation of them.
\<close>

theorem construction_order_independent_witness:
  "mset [pos 1 (obj 0), pos 3 (obj 1), pos 2 (obj 2)] =
     mset [pos 2 (obj 2), pos 1 (obj 0), pos 3 (obj 1)] \<and>
   distinct (map index [pos 1 (obj 0), pos 3 (obj 1), pos 2 (obj 2)]) \<and>
   tuple [TBool, TChar, TDouble, TInt] [pos 1 (obj 0), pos 3 (obj 1), pos 2 (obj 2)]
       (objects_of [VBool False, VDouble 3.14, VChar 109]) =
     tuple [TBool, TChar, TDouble, TInt] [pos 2 (obj 2), pos 1 (obj 0), pos 3 (obj 1)]
       (objects_of [VBool False, VDouble 3.14, VChar 109])"
proof -
  have a: "mset [pos 1 (obj 0), pos 3 (obj 1), pos 2 (obj 2)] =
     mset [pos 2 (obj 2), pos 1 (obj 0), pos 3 (obj 1)]"
    by (simp add: add_mset_commute)
  have b: "distinct (map index [pos 1 (obj 0), pos 3 (obj 1), pos 2 (obj 2)])"
    by (simp add: pos_def)
  show ?thesis
    using a b construction_order_independent [OF a b] by simp
qed

text \<open>
  C5. First match wins. When no initializer before \<open>p\<close> has the index of \<open>p\<close>:
  \<^item> \<^verbatim>\<open>initialize\<close> for that index returns by \<^verbatim>\<open>std::move\<close> from what \<open>p\<close> refers to,
    whatever follows \<open>p\<close>;
  \<^item> the later initializers with the index of \<open>p\<close> are ignored: the construction without
    them has the same result;
  \<^item> when the construction compiles and the index is one of \<open>1..N\<close>, that slot holds the
    value of the object \<open>p\<close> refers to, converted to the slot's type (\<open>p\<close> not referring to
    an owning pointer that an initializer of another slot refers to as well).
\<close>

theorem first_initializer_wins:
  assumes "\<forall>q\<in>set pre. index q \<noteq> index p"
  shows "initialize (index p) First (pre @ p # post) m =
           move_from (value_ref p) (m\<lparr>consumed := p # consumed m\<rparr>) \<and>
         tuple T (pre @ p # post) m =
           tuple T (pre @ p # filter (\<lambda>q. index q \<noteq> index p) post) m \<and>
         (\<forall>t m'. tuple T (pre @ p # post) m = Inr (t, m') \<and>
              1 \<le> index p \<and> index p \<le> int (length T) \<and>
              (\<forall>q\<in>set (pre @ post).
                  index q \<noteq> index p \<and> target (value_ref q) = target (value_ref p) \<longrightarrow>
                  type_of (objects m (target (value_ref p))) \<noteq> TUniquePtr) \<longrightarrow>
            (\<exists>v. get (int (length T)) (index p) t = Member True v \<and>
               direct_init (T ! nat (index p - 1)) (objects m (target (value_ref p))) = Inr v))"
proof -
  have "selected (index p) pre = None"
    using assms by (auto simp: selected_def find_None_iff)
  then have sel: "selected (index p) (pre @ p # post) = Some p"
    by (simp add: selected_append selected_Cons_same)
  then have one: "initialize (index p) First (pre @ p # post) m =
           move_from (value_ref p) (m\<lparr>consumed := p # consumed m\<rparr>)"
    by (simp add: initialize_selected)
  have two: "tuple T (pre @ p # post) m =
      tuple T (pre @ p # filter (\<lambda>q. index q \<noteq> index p) post) m"
    unfolding tuple_def by (rule sized_tuple_cong) (simp add: selected_later_ignored)
  have three: "\<exists>v. get (int (length T)) (index p) t = Member True v \<and>
               direct_init (T ! nat (index p - 1)) (objects m (target (value_ref p))) = Inr v"
    if ok: "tuple T (pre @ p # post) m = Inr (t, m')"
      and i: "1 \<le> index p" "index p \<le> int (length T)"
      and share: "\<forall>q\<in>set (pre @ post).
                  index q \<noteq> index p \<and> target (value_ref q) = target (value_ref p) \<longrightarrow>
                  type_of (objects m (target (value_ref p))) \<noteq> TUniquePtr"
    for t m'
  proof -
    have ok': "sized_tuple (int (length T)) T (pre @ p # post) m = Inr (t, m')"
      using ok by (simp add: tuple_def)
    have "\<forall>q\<in>set (pre @ p # post).
        index q \<noteq> index p \<and> target (value_ref q) = target (value_ref p) \<longrightarrow>
        type_of (objects m (target (value_ref p))) \<noteq> TUniquePtr"
      using share by auto
    from slot_selected [OF ok' i sel this]
    have "direct_init (T ! nat (index p - 1)) (objects m (target (value_ref p))) =
        Inr (t ! nat (index p - 1))" .
    moreover have "get (int (length T)) (index p) t = Member True (t ! nat (index p - 1))"
      using tuple_get [of "index p" t] i sized_tuple_length [OF ok'] by simp
    ultimately show ?thesis by simp
  qed
  show ?thesis using one two three by blast
qed

text \<open>
  The theorem for \<^verbatim>\<open>tuple<bool, char> t( pos<1>( true ), pos<2>( 'a' ), pos<2>( 'b' ) )\<close>:
  slot 2 holds \<^verbatim>\<open>'a'\<close>.
\<close>

theorem first_initializer_wins_witness:
  "initialize 2 TChar [pos 1 (obj 0), pos 2 (obj 1), pos 2 (obj 2)]
       (objects_of [VBool True, VChar 97, VChar 98]) =
     move_from (obj 1) ((objects_of [VBool True, VChar 97, VChar 98])\<lparr>consumed := [pos 2 (obj 1)]\<rparr>) \<and>
   tuple [TBool, TChar] [pos 1 (obj 0), pos 2 (obj 1), pos 2 (obj 2)]
       (objects_of [VBool True, VChar 97, VChar 98]) =
     tuple [TBool, TChar] [pos 1 (obj 0), pos 2 (obj 1)] (objects_of [VBool True, VChar 97, VChar 98]) \<and>
   (\<exists>t m'. tuple [TBool, TChar] [pos 1 (obj 0), pos 2 (obj 1), pos 2 (obj 2)]
       (objects_of [VBool True, VChar 97, VChar 98]) = Inr (t, m') \<and>
     get 2 2 t = Member True (VChar 97))"
proof -
  define m where "m = objects_of [VBool True, VChar 97, VChar 98]"
  define T where "T = [TBool, TChar]"
  have pre: "\<forall>q\<in>set [pos 1 (obj 0)]. index q \<noteq> index (pos 2 (obj 1))"
    by (simp add: pos_def)
  note inst = first_initializer_wins [OF pre, of TChar "[pos 2 (obj 2)]" m T]
  have one: "initialize 2 TChar [pos 1 (obj 0), pos 2 (obj 1), pos 2 (obj 2)] m =
     move_from (obj 1) (m\<lparr>consumed := [pos 2 (obj 1)]\<rparr>)"
    using inst by (simp add: pos_def m_def objects_of_def)
  have two: "tuple T [pos 1 (obj 0), pos 2 (obj 1), pos 2 (obj 2)] m =
     tuple T [pos 1 (obj 0), pos 2 (obj 1)] m"
    using inst by (simp add: pos_def)
  have "\<exists>t m'. tuple T [pos 1 (obj 0), pos 2 (obj 1), pos 2 (obj 2)] m = Inr (t, m')"
    by (simp add: T_def m_def tuple_def pos_def obj_def objects_of_def move_from_def
        move_value_def direct_init_def standard_conversion_def)
  then obtain t m' where ok: "tuple T [pos 1 (obj 0), pos 2 (obj 1), pos 2 (obj 2)] m = Inr (t, m')"
    by blast
  with inst have "\<exists>v. get (int (length T)) (index (pos 2 (obj 1))) t = Member True v \<and>
      direct_init (T ! nat (index (pos 2 (obj 1)) - 1))
        (objects m (target (value_ref (pos 2 (obj 1))))) = Inr v"
    by (simp add: pos_def obj_def T_def m_def objects_of_def)
  then have "get 2 2 t = Member True (VChar 97)"
    by (auto simp: pos_def obj_def T_def m_def objects_of_def direct_init_def
        standard_conversion_def)
  with ok one two show ?thesis unfolding m_def T_def by blast
qed

text \<open>
  C8. Every initializer is consumed at most once. The store lists each initializer on
  which \<^verbatim>\<open>initialize\<close> executes \<^verbatim>\<open>return std::move( x.value )\<close>; the ones a
  construction adds to the list are pairwise different, are among the arguments, and
  have pairwise different indices (two arguments that are equal have the same index, so
  that at most one of them is on the list). Where no two arguments refer to the same
  object, no object is moved from twice either.
\<close>

theorem initializer_consumed_once:
  assumes "tuple T x m = Inr (t, m')"
  shows "\<exists>new. consumed m' = new @ consumed m \<and> distinct new \<and> distinct (map index new) \<and>
      set new \<subseteq> set x \<and>
      (inj_on (\<lambda>p. target (value_ref p)) (set x) \<longrightarrow>
         distinct (map (\<lambda>p. target (value_ref p)) new))"
proof -
  from sized_tuple_consumed [OF assms [unfolded tuple_def]] obtain new where
    new: "consumed m' = new @ consumed m" "distinct (map index new)" "\<forall>p\<in>set new. p \<in> set x"
    by blast
  have d: "distinct new" using new(2) by (auto simp: distinct_map)
  have s: "set new \<subseteq> set x" using new(3) by auto
  have "distinct (map (\<lambda>p. target (value_ref p)) new)"
    if "inj_on (\<lambda>p. target (value_ref p)) (set x)"
    using d inj_on_subset [OF that s] by (simp add: distinct_map)
  with new(1,2) d s show ?thesis by blast
qed

text \<open>
  The theorem at the \<^verbatim>\<open>tuple2\<close> of \<^verbatim>\<open>main\<close>.
\<close>

theorem initializer_consumed_once_witness:
  "\<exists>t m' new. tuple [TBool, TShort, TUniquePtr] [pos 1 (obj 0), pos 2 (obj 1), pos 3 (obj 2)]
       (objects_of [VBool False, VInt 4, VUniquePtr (Some ''pink pig'')]) = Inr (t, m') \<and>
     consumed m' = new @ consumed (objects_of [VBool False, VInt 4, VUniquePtr (Some ''pink pig'')]) \<and>
     distinct new \<and> distinct (map (\<lambda>p. target (value_ref p)) new)"
proof -
  define x where "x = [pos 1 (obj 0), pos 2 (obj 1), pos 3 (obj 2)]"
  define m where "m = objects_of [VBool False, VInt 4, VUniquePtr (Some ''pink pig'')]"
  have "\<exists>t m'. tuple [TBool, TShort, TUniquePtr] x m = Inr (t, m')"
    by (simp add: x_def m_def tuple_def pos_def obj_def objects_of_def move_from_def
        move_value_def direct_init_def standard_conversion_def)
  then obtain t m' where ok: "tuple [TBool, TShort, TUniquePtr] x m = Inr (t, m')"
    by blast
  have inj: "inj_on (\<lambda>p. target (value_ref p)) (set x)"
    by (simp add: x_def pos_def obj_def)
  from initializer_consumed_once [OF ok] inj ok show ?thesis
    unfolding x_def m_def by blast
qed

text \<open>
  C9. \<^verbatim>\<open>constexpr tuple<bool, char, double, int> ctuple( pos<1>( false ), pos<3>( 3.14 ),
  pos<2>( 'm' ) )\<close>, the three literals being temporaries at the addresses 0, 1 and 2 of
  any store: the construction compiles, and \<^verbatim>\<open>get<1>()\<close> is \<^verbatim>\<open>false\<close>,
  \<^verbatim>\<open>get<2>()\<close> is \<^verbatim>\<open>'m'\<close>, \<^verbatim>\<open>get<3>()\<close> is \<^verbatim>\<open>3.14\<close> and \<^verbatim>\<open>get<4>()\<close> is
  \<^verbatim>\<open>int()\<close>, that is 0: the four \<^verbatim>\<open>static_assert\<close>s of \<^verbatim>\<open>main\<close>.
\<close>

theorem ctuple_static_asserts:
  "\<exists>ctuple m'.
     tuple [TBool, TChar, TDouble, TInt]
       [pos 1 (obj 0), pos 3 (obj 1), pos 2 (obj 2)]
       \<lparr>objects = s(0 := VBool False, 1 := VDouble 3.14, 2 := VChar (of_char CHR ''m'')),
        consumed = l\<rparr> = Inr (ctuple, m') \<and>
     get 4 1 ctuple = Member True (VBool False) \<and>
     get 4 2 ctuple = Member True (VChar (of_char CHR ''m'')) \<and>
     get 4 3 ctuple = Member True (VDouble 3.14) \<and>
     get 4 4 ctuple = Member True (VInt 0)"
  by (simp add: tuple_def pos_def obj_def move_from_def move_value_def direct_init_def
      standard_conversion_def)

subsection \<open>\<^verbatim>\<open>get\<close> and \<^verbatim>\<open>set\<close>\<close>

text \<open>
  C3. \<^verbatim>\<open>get\<close> after \<^verbatim>\<open>set\<close>. The value in a slot has the slot's declared type, from
  the construction on (lemmas \<open>sized_tuple_types\<close> and \<open>set_slot_types\<close>). For a slot
  \<open>i\<close> in \<open>1..N\<close> and an argument that refers to an object of that type (not a
  \<^verbatim>\<open>const\<close> owning pointer, which \<^verbatim>\<open>set\<close> cannot move from): \<^verbatim>\<open>set<i>\<close> compiles,
  \<^verbatim>\<open>get<i>()\<close> is then the value the object held, and it still is after any further
  \<^verbatim>\<open>set\<close> calls on other slots. And as long as no \<^verbatim>\<open>set\<close> is on slot \<open>i\<close>,
  \<^verbatim>\<open>get<i>()\<close> is what it was, the value the construction installed.
\<close>

theorem get_after_set:
  assumes "1 \<le> i" and "i \<le> int (length t)"
    and "type_of (objects m (target arg)) = type_of (t ! nat (i - 1))"
    and "type_of (objects m (target arg)) = TUniquePtr \<longrightarrow> \<not> is_const arg"
  shows "(\<exists>t' m'. set_slot i arg t m = Inr (t', m') \<and>
       get (int (length t')) i t' = Member True (objects m (target arg)) \<and>
       (\<forall>calls t'' m''. (\<forall>c\<in>set calls. fst c \<noteq> i) \<and> set_slots calls t' m' = Inr (t'', m'') \<longrightarrow>
          get (int (length t'')) i t'' = Member True (objects m (target arg)))) \<and>
     (\<forall>calls t'' m''. (\<forall>c\<in>set calls. fst c \<noteq> i) \<and> set_slots calls t m = Inr (t'', m'') \<longrightarrow>
          get (int (length t'')) i t'' = get (int (length t)) i t)"
proof -
  define v where "v = objects m (target arg)"
  define m' where "m' = m\<lparr>objects := (objects m)(target arg := left_behind v)\<rparr>"
  have mv: "move_from arg m = Inr (v, m')"
    using assms(4) by (auto simp: move_from_Inr v_def m'_def)
  have conv: "standard_conversion (type_of (t ! nat (i - 1))) v = Inr v"
    using assms(3) by (simp add: standard_conversion_same v_def)
  have set: "set_slot i arg t m = Inr (t[nat (i - 1) := v], m')"
    using assms(1,2) by (simp add: set_slot_update mv conv)
  have get: "get (int (length (t[nat (i - 1) := v]))) i (t[nat (i - 1) := v]) = Member True v"
    using assms(1,2) by (simp add: get_nth)
  have later: "get (int (length t'')) i t'' = Member True v"
    if "\<forall>c\<in>set calls. fst c \<noteq> i" "set_slots calls (t[nat (i - 1) := v]) m' = Inr (t'', m'')"
    for calls t'' m''
    using set_slots_other [OF that(2) that(1)] get by auto
  have kept: "get (int (length t'')) i t'' = get (int (length t)) i t"
    if "\<forall>c\<in>set calls. fst c \<noteq> i" "set_slots calls t m = Inr (t'', m'')"
    for calls t'' m''
    using set_slots_other [OF that(2) that(1)] by auto
  show ?thesis
    using set get later kept unfolding v_def [symmetric] by blast
qed

text \<open>
  The theorem at \<^verbatim>\<open>tuple2.set<3>(p)\<close> of \<^verbatim>\<open>main\<close>, followed by a \<^verbatim>\<open>set<1>\<close>:
  \<^verbatim>\<open>get<3>()\<close> owns "black dog" after the first call and after the second, and
  \<^verbatim>\<open>get<2>()\<close> is still the 4 of the construction.
\<close>

theorem get_after_set_witness:
  "\<exists>t1 m1 t2 m2.
     set_slot 3 (obj 0) [VBool False, VShort 4, VUniquePtr (Some ''pink pig'')]
       (objects_of [VUniquePtr (Some ''black dog''), VBool True, VShort 9]) = Inr (t1, m1) \<and>
     get (int (length t1)) 3 t1 = Member True (VUniquePtr (Some ''black dog'')) \<and>
     set_slots [(1, obj 1)] t1 m1 = Inr (t2, m2) \<and>
     get (int (length t2)) 3 t2 = Member True (VUniquePtr (Some ''black dog'')) \<and>
     get (int (length t2)) 2 t2 = Member True (VShort 4)"
proof -
  define t where "t = [VBool False, VShort 4, VUniquePtr (Some ''pink pig'')]"
  define m where "m = objects_of [VUniquePtr (Some ''black dog''), VBool True, VShort 9]"
  define t1 where "t1 = [VBool False, VShort 4, VUniquePtr (Some ''black dog'')]"
  define m1 where "m1 = m\<lparr>objects := (objects m)(0 := VUniquePtr None)\<rparr>"
  have at3: "1 \<le> (3::int)" "3 \<le> int (length t)"
    "type_of (objects m (target (obj 0))) = type_of (t ! nat (3 - 1))"
    "type_of (objects m (target (obj 0))) = TUniquePtr \<longrightarrow> \<not> is_const (obj 0)"
    by (simp_all add: t_def m_def obj_def objects_of_def)
  have at2: "1 \<le> (2::int)" "2 \<le> int (length t)"
    "type_of (objects m (target (obj 2))) = type_of (t ! nat (2 - 1))"
    "type_of (objects m (target (obj 2))) = TUniquePtr \<longrightarrow> \<not> is_const (obj 2)"
    by (simp_all add: t_def m_def obj_def objects_of_def)
  have e1: "set_slot 3 (obj 0) t m = Inr (t1, m1)"
    by (simp add: t_def m_def t1_def m1_def obj_def objects_of_def move_from_def move_value_def
        standard_conversion_def)
  have "\<exists>t2 m2. set_slots [(1, obj 1)] t1 m1 = Inr (t2, m2)"
    by (simp add: m_def t1_def m1_def obj_def objects_of_def move_from_def move_value_def
        standard_conversion_def)
  then obtain t2 m2 where e2: "set_slots [(1, obj 1)] t1 m1 = Inr (t2, m2)" by blast
  have both: "set_slots [(3, obj 0), (1, obj 1)] t m = Inr (t2, m2)"
    using e1 e2 by simp
  have other: "\<forall>c\<in>set [(1::int, obj 1)]. fst c \<noteq> 3"
    "\<forall>c\<in>set [(3::int, obj 0), (1, obj 1)]. fst c \<noteq> 2"
    by simp_all
  from get_after_set [OF at3] obtain t' m' where
    a: "set_slot 3 (obj 0) t m = Inr (t', m')" and
    b: "get (int (length t')) 3 t' = Member True (objects m (target (obj 0)))" and
    c: "\<forall>calls t'' m''. (\<forall>c\<in>set calls. fst c \<noteq> 3) \<and> set_slots calls t' m' = Inr (t'', m'') \<longrightarrow>
          get (int (length t'')) 3 t'' = Member True (objects m (target (obj 0)))"
    by blast
  have eq: "t' = t1" "m' = m1" using a e1 by simp_all
  have g3: "get (int (length t1)) 3 t1 = Member True (objects m (target (obj 0)))"
    "get (int (length t2)) 3 t2 = Member True (objects m (target (obj 0)))"
    using b c [rule_format, of "[(1, obj 1)]" t2 m2] e2 other(1) unfolding eq by simp_all
  from get_after_set [OF at2]
  have d: "\<forall>calls t'' m''. (\<forall>c\<in>set calls. fst c \<noteq> 2) \<and> set_slots calls t m = Inr (t'', m'') \<longrightarrow>
          get (int (length t'')) 2 t'' = get (int (length t)) 2 t"
    by (rule conjunct2)
  have "get (int (length t2)) 2 t2 = get (int (length t)) 2 t"
    using d [rule_format, of "[(3, obj 0), (1, obj 1)]" t2 m2] both other(2) by simp
  then have g2: "get (int (length t2)) 2 t2 = Member True (VShort 4)"
    by (simp add: t_def)
  have v: "objects m (target (obj 0)) = VUniquePtr (Some ''black dog'')"
    by (simp add: m_def obj_def objects_of_def)
  have "set_slot 3 (obj 0) t m = Inr (t1, m1) \<and>
     get (int (length t1)) 3 t1 = Member True (VUniquePtr (Some ''black dog'')) \<and>
     set_slots [(1, obj 1)] t1 m1 = Inr (t2, m2) \<and>
     get (int (length t2)) 3 t2 = Member True (VUniquePtr (Some ''black dog'')) \<and>
     get (int (length t2)) 2 t2 = Member True (VShort 4)"
    using e1 e2 g3 g2 unfolding v by simp
  then show ?thesis
    unfolding t_def m_def by (intro exI)
qed

text \<open>
  C4. An index out of range is not rejected by \<^verbatim>\<open>get\<close>. On the four-slot
  \<^verbatim>\<open>ctuple\<close>, \<^verbatim>\<open>get<5>()\<close> and \<^verbatim>\<open>get<0>()\<close> compile: they pass every level and
  end in the anchor's \<^verbatim>\<open>get\<close>, the one commented "never called", and the caller
  receives a dangling reference to the 0 it returned. The same indices are rejected by
  \<^verbatim>\<open>set\<close>. On the empty \<^verbatim>\<open>tuple<>\<close>, which has no index in range, both
  \<^verbatim>\<open>get<1>()\<close> and \<^verbatim>\<open>set<1>\<close> compile: they are the anchor's own.
\<close>

theorem get_out_of_range_reaches_anchor:
  "get 4 5 [VBool False, VChar (of_char CHR ''m''), VDouble 3.14, VInt 0] = Dangling (VInt 0) \<and>
   get 4 0 [VBool False, VChar (of_char CHR ''m''), VDouble 3.14, VInt 0] = Dangling (VInt 0) \<and>
   set_slot 5 arg [VBool False, VChar (of_char CHR ''m''), VDouble 3.14, VInt 0] m = Inl IllFormed \<and>
   set_slot 0 arg [VBool False, VChar (of_char CHR ''m''), VDouble 3.14, VInt 0] m = Inl IllFormed \<and>
   get 0 1 [] = Prvalue (VInt 0) \<and>
   set_slot 1 arg [] m = Inr ([], m)"
  by simp

text \<open>
  C6. What becomes of the caller's object. The claim as stated fails for
  \<^verbatim>\<open>tuple2.set<3>(p)\<close> of \<^verbatim>\<open>main\<close> (the counterexample after the theorem), so the
  theorem is the amended claim. The model makes no difference between an object the
  caller has named and a temporary, as the code makes none: \<^verbatim>\<open>set\<close> and
  \<^verbatim>\<open>initialize\<close> apply \<^verbatim>\<open>std::move\<close> to either.
  \<^item> After a \<^verbatim>\<open>set\<close> that compiles, on a tuple with a slot: an owning pointer given
    as the argument is null and the slot owns what it owned; an argument of any other
    type still holds its value; every other object is unchanged.
  \<^item> After a construction that compiles, for every slot \<open>k\<close> in \<open>1..N\<close> with an
    initializer, and the object of the first initializer with the index \<open>k\<close>: if the
    object is an owning pointer, it is null, and if the slot is an owning pointer too,
    the slot owns what the object owned unless a slot with a greater index, which is
    initialized before, is initialized from the same object (\<open>moved_earlier\<close>), and
    is null in that case: only the slot that is initialized from an owning pointer
    first, the one with the greatest index, can own what the pointer owned. If the
    object is of any other type, it still holds its value. Every object that no slot
    is initialized from is unchanged.
\<close>

theorem caller_object_is_moved_from:
  "(t \<noteq> [] \<and> set_slot i arg t m = Inr (t', m') \<longrightarrow>
      (\<forall>u. objects m (target arg) = VUniquePtr u \<longrightarrow>
         objects m' (target arg) = VUniquePtr None \<and>
         get (int (length t')) i t' = Member True (VUniquePtr u)) \<and>
      (type_of (objects m (target arg)) \<noteq> TUniquePtr \<longrightarrow>
         objects m' (target arg) = objects m (target arg)) \<and>
      (\<forall>a. a \<noteq> target arg \<longrightarrow> objects m' a = objects m a)) \<and>
   (tuple T x m = Inr (t2, m2) \<longrightarrow>
      (\<forall>k p. 1 \<le> k \<and> k \<le> int (length T) \<and> selected k x = Some p \<longrightarrow>
         (\<forall>u. objects m (target (value_ref p)) = VUniquePtr u \<longrightarrow>
            objects m2 (target (value_ref p)) = VUniquePtr None \<and>
            (T ! nat (k - 1) = TUniquePtr \<longrightarrow>
               get (int (length T)) k t2 =
                 Member True (if moved_earlier (int (length T)) x k (target (value_ref p))
                              then VUniquePtr None else VUniquePtr u))) \<and>
         (type_of (objects m (target (value_ref p))) \<noteq> TUniquePtr \<longrightarrow>
            objects m2 (target (value_ref p)) = objects m (target (value_ref p)))) \<and>
      (\<forall>a. (\<forall>k p. 1 \<le> k \<and> k \<le> int (length T) \<and> selected k x = Some p \<longrightarrow>
                target (value_ref p) \<noteq> a) \<longrightarrow>
           objects m2 a = objects m a))"
proof -
  have set_part: "(\<forall>u. objects m (target arg) = VUniquePtr u \<longrightarrow>
         objects m' (target arg) = VUniquePtr None \<and>
         get (int (length t')) i t' = Member True (VUniquePtr u)) \<and>
      (type_of (objects m (target arg)) \<noteq> TUniquePtr \<longrightarrow>
         objects m' (target arg) = objects m (target arg)) \<and>
      (\<forall>a. a \<noteq> target arg \<longrightarrow> objects m' a = objects m a)"
    if a: "t \<noteq> [] \<and> set_slot i arg t m = Inr (t', m')"
  proof -
    have i: "1 \<le> i" "i \<le> int (length t)"
      using a set_slot_in_range [of i arg t m t' m'] by simp_all
    from a obtain w where
      mv: "move_from arg m = Inr (objects m (target arg), m')" and
      conv: "standard_conversion (type_of (t ! nat (i - 1))) (objects m (target arg)) = Inr w" and
      t': "t' = t[nat (i - 1) := w]"
      by (auto simp: set_slot_update [OF i] move_from_Inr split: sum.splits prod.splits)
    have obj: "objects m' = (objects m)(target arg := left_behind (objects m (target arg)))"
      using mv by (simp add: move_from_Inr)
    have "objects m' (target arg) = VUniquePtr None \<and>
        get (int (length t')) i t' = Member True (VUniquePtr u)"
      if u: "objects m (target arg) = VUniquePtr u" for u
    proof -
      have "w = VUniquePtr u"
        using u conv standard_conversion_unique by simp
      then have "get (int (length t')) i t' = Member True (VUniquePtr u)"
        using i by (simp add: t' get_nth)
      then show ?thesis
        using u by (simp add: obj)
    qed
    moreover have "type_of (objects m (target arg)) \<noteq> TUniquePtr \<longrightarrow>
        objects m' (target arg) = objects m (target arg)"
      by (simp add: obj left_behind_other)
    moreover have "\<forall>a. a \<noteq> target arg \<longrightarrow> objects m' a = objects m a"
      by (simp add: obj)
    ultimately show ?thesis by blast
  qed
  have constructor_part: "(\<forall>k p. 1 \<le> k \<and> k \<le> int (length T) \<and> selected k x = Some p \<longrightarrow>
         (\<forall>u. objects m (target (value_ref p)) = VUniquePtr u \<longrightarrow>
            objects m2 (target (value_ref p)) = VUniquePtr None \<and>
            (T ! nat (k - 1) = TUniquePtr \<longrightarrow>
               get (int (length T)) k t2 =
                 Member True (if moved_earlier (int (length T)) x k (target (value_ref p))
                              then VUniquePtr None else VUniquePtr u))) \<and>
         (type_of (objects m (target (value_ref p))) \<noteq> TUniquePtr \<longrightarrow>
            objects m2 (target (value_ref p)) = objects m (target (value_ref p)))) \<and>
      (\<forall>a. (\<forall>k p. 1 \<le> k \<and> k \<le> int (length T) \<and> selected k x = Some p \<longrightarrow>
                target (value_ref p) \<noteq> a) \<longrightarrow>
           objects m2 a = objects m a)"
    if "tuple T x m = Inr (t2, m2)"
  proof -
    have ok: "sized_tuple (int (length T)) T x m = Inr (t2, m2)"
      using that by (simp add: tuple_def)
    have obj: "objects m2 a =
       (if \<exists>k p. int (length T) - int (length T) < k \<and> k \<le> int (length T) \<and>
             selected k x = Some p \<and> target (value_ref p) = a
        then left_behind (objects m a) else objects m a)" for a
      by (rule sized_tuple_objects [OF ok])
    have len: "length t2 = length T" using ok by (rule sized_tuple_length)
    have used: "(\<forall>u. objects m (target (value_ref p)) = VUniquePtr u \<longrightarrow>
            objects m2 (target (value_ref p)) = VUniquePtr None \<and>
            (T ! nat (k - 1) = TUniquePtr \<longrightarrow>
               get (int (length T)) k t2 =
                 Member True (if moved_earlier (int (length T)) x k (target (value_ref p))
                              then VUniquePtr None else VUniquePtr u))) \<and>
         (type_of (objects m (target (value_ref p))) \<noteq> TUniquePtr \<longrightarrow>
            objects m2 (target (value_ref p)) = objects m (target (value_ref p)))"
      if k: "1 \<le> k \<and> k \<le> int (length T) \<and> selected k x = Some p" for k p
    proof -
      have "\<exists>k' q. int (length T) - int (length T) < k' \<and> k' \<le> int (length T) \<and>
          selected k' x = Some q \<and> target (value_ref q) = target (value_ref p)"
        using k by (intro exI [of _ k] exI [of _ p]) simp
      then have left: "objects m2 (target (value_ref p)) =
          left_behind (objects m (target (value_ref p)))"
        by (subst obj) (simp only: if_True)
      have get: "get (int (length T)) k t2 = Member True (t2 ! nat (k - 1))"
        using tuple_get [of k t2] k len by simp
      have slot: "get (int (length T)) k t2 =
          Member True (if moved_earlier (int (length T)) x k (target (value_ref p))
                       then VUniquePtr None else VUniquePtr u)"
        if u: "objects m (target (value_ref p)) = VUniquePtr u"
          and ty: "T ! nat (k - 1) = TUniquePtr" for u
      proof -
        from k have "1 \<le> k" "k \<le> int (length T)" "selected k x = Some p" by simp_all
        from slot_selected_exact [OF ok this]
        have "direct_init TUniquePtr
           (if moved_earlier (int (length T)) x k (target (value_ref p))
            then VUniquePtr None else VUniquePtr u) = Inr (t2 ! nat (k - 1))"
          unfolding u ty left_behind.simps(1) .
        moreover have "direct_init TUniquePtr
           (if moved_earlier (int (length T)) x k (target (value_ref p))
            then VUniquePtr None else VUniquePtr u) =
           Inr (if moved_earlier (int (length T)) x k (target (value_ref p))
            then VUniquePtr None else VUniquePtr u)"
          by (rule direct_init_same) simp
        ultimately show ?thesis using get by simp
      qed
      show ?thesis
        using left slot by (auto simp: left_behind_other)
    qed
    have unused: "objects m2 a = objects m a"
      if none: "\<forall>k p. 1 \<le> k \<and> k \<le> int (length T) \<and> selected k x = Some p \<longrightarrow>
                target (value_ref p) \<noteq> a" for a
    proof -
      have "\<not> (\<exists>k p. int (length T) - int (length T) < k \<and> k \<le> int (length T) \<and>
          selected k x = Some p \<and> target (value_ref p) = a)"
      proof
        assume "\<exists>k p. int (length T) - int (length T) < k \<and> k \<le> int (length T) \<and>
          selected k x = Some p \<and> target (value_ref p) = a"
        then obtain k p where kp: "int (length T) - int (length T) < k" "k \<le> int (length T)"
          "selected k x = Some p" "target (value_ref p) = a"
          by blast
        from kp(1) have "1 \<le> k" by simp
        with kp none show False by blast
      qed
      then show ?thesis
        by (subst obj) (simp only: if_False)
    qed
    show ?thesis using used unused by blast
  qed
  show ?thesis using set_part constructor_part by blast
qed

text \<open>
  The theorem at \<^verbatim>\<open>tuple2.set<3>(p)\<close>, with an \<^verbatim>\<open>int\<close> beside \<open>p\<close> in the store, at a
  \<^verbatim>\<open>set<2>\<close> of that \<^verbatim>\<open>int\<close>, at the construction of \<^verbatim>\<open>tuple2\<close>, whose slot 3 owns
  the string afterwards, and at the construction of two owning pointers from one
  pointer \<open>p\<close>, \<^verbatim>\<open>pos<1>( p ), pos<2>( p )\<close>: \<open>p\<close> is null, slot 2 owns the string and slot
  1 is null.
\<close>

theorem caller_object_is_moved_from_witness:
  "(\<exists>t' m'. set_slot 3 (obj 0) [VBool False, VShort 4, VUniquePtr (Some ''pink pig'')]
       (objects_of [VUniquePtr (Some ''black dog''), VInt 7]) = Inr (t', m') \<and>
     objects m' 0 = VUniquePtr None \<and>
     get (int (length t')) 3 t' = Member True (VUniquePtr (Some ''black dog'')) \<and>
     objects m' 1 = VInt 7) \<and>
   (\<exists>t' m'. set_slot 2 (obj 1) [VBool False, VShort 4, VUniquePtr (Some ''pink pig'')]
       (objects_of [VUniquePtr (Some ''black dog''), VInt 7]) = Inr (t', m') \<and>
     objects m' 1 = VInt 7) \<and>
   (\<exists>t2 m2. tuple [TBool, TShort, TUniquePtr] [pos 1 (obj 0), pos 2 (obj 1), pos 3 (obj 2)]
       (objects_of [VBool False, VInt 4, VUniquePtr (Some ''pink pig''), VInt 7]) = Inr (t2, m2) \<and>
     objects m2 2 = VUniquePtr None \<and>
     get 3 3 t2 = Member True (VUniquePtr (Some ''pink pig'')) \<and>
     objects m2 1 = VInt 4 \<and> objects m2 3 = VInt 7) \<and>
   (\<exists>t2 m2. tuple [TUniquePtr, TUniquePtr] [pos 1 (obj 0), pos 2 (obj 0)]
       (objects_of [VUniquePtr (Some ''pink pig'')]) = Inr (t2, m2) \<and>
     objects m2 0 = VUniquePtr None \<and>
     get 2 2 t2 = Member True (VUniquePtr (Some ''pink pig'')) \<and>
     get 2 1 t2 = Member True (VUniquePtr None))"
proof -
  define t where "t = [VBool False, VShort 4, VUniquePtr (Some ''pink pig'')]"
  define m where "m = objects_of [VUniquePtr (Some ''black dog''), VInt 7]"
  have ne: "t \<noteq> []" by (simp add: t_def)
  have "\<exists>t' m'. set_slot 3 (obj 0) t m = Inr (t', m')"
    by (simp add: t_def m_def obj_def objects_of_def move_from_def move_value_def
        standard_conversion_def)
  then obtain t' m' where ok: "set_slot 3 (obj 0) t m = Inr (t', m')" by blast
  have o: "objects m (target (obj 0)) = VUniquePtr (Some ''black dog'')" "1 \<noteq> target (obj 0)"
    "objects m 1 = VInt 7" "target (obj 0) = 0"
    by (simp_all add: m_def obj_def objects_of_def)
  from caller_object_is_moved_from [of t 3 "obj 0" m t' m'] ne ok o
  have "objects m' 0 = VUniquePtr None \<and>
     get (int (length t')) 3 t' = Member True (VUniquePtr (Some ''black dog'')) \<and>
     objects m' 1 = VInt 7"
    by (metis (no_types, lifting))
  with ok have one: "\<exists>t' m'. set_slot 3 (obj 0) t m = Inr (t', m') \<and>
     objects m' 0 = VUniquePtr None \<and>
     get (int (length t')) 3 t' = Member True (VUniquePtr (Some ''black dog'')) \<and>
     objects m' 1 = VInt 7"
    by blast
  have "\<exists>t' m'. set_slot 2 (obj 1) t m = Inr (t', m')"
    by (simp add: t_def m_def obj_def objects_of_def move_from_def move_value_def
        standard_conversion_def)
  then obtain t'' m'' where ok2: "set_slot 2 (obj 1) t m = Inr (t'', m'')" by blast
  have o2: "type_of (objects m (target (obj 1))) \<noteq> TUniquePtr" "target (obj 1) = 1"
    by (simp_all add: m_def obj_def objects_of_def)
  from caller_object_is_moved_from [of t 2 "obj 1" m t'' m''] ne ok2 o2 o(3)
  have "objects m'' 1 = VInt 7"
    by (metis (no_types, lifting))
  with ok2 have two: "\<exists>t' m'. set_slot 2 (obj 1) t m = Inr (t', m') \<and> objects m' 1 = VInt 7"
    by blast
  define T where "T = [TBool, TShort, TUniquePtr]"
  define x where "x = [pos 1 (obj 0), pos 2 (obj 1), pos 3 (obj 2)]"
  define m0 where "m0 = objects_of [VBool False, VInt 4, VUniquePtr (Some ''pink pig''), VInt 7]"
  have "\<exists>t2 m2. tuple T x m0 = Inr (t2, m2)"
    by (simp add: T_def x_def m0_def tuple_def pos_def obj_def objects_of_def move_from_def
        move_value_def direct_init_def standard_conversion_def)
  then obtain t2 m2 where ok3: "tuple T x m0 = Inr (t2, m2)" by blast
  note ctor = caller_object_is_moved_from [THEN conjunct2, THEN mp, OF ok3]
  have sel: "1 \<le> (3::int) \<and> 3 \<le> int (length T) \<and> selected 3 x = Some (pos 3 (obj 2))"
    "1 \<le> (2::int) \<and> 2 \<le> int (length T) \<and> selected 2 x = Some (pos 2 (obj 1))"
    "\<forall>k p. 1 \<le> k \<and> k \<le> int (length T) \<and> selected k x = Some p \<longrightarrow> target (value_ref p) \<noteq> 3"
    by (auto simp: selected_def x_def pos_def obj_def T_def split: if_splits)
  have o3: "objects m0 (target (value_ref (pos 3 (obj 2)))) = VUniquePtr (Some ''pink pig'')"
    "type_of (objects m0 (target (value_ref (pos 2 (obj 1))))) \<noteq> TUniquePtr"
    "target (value_ref (pos 3 (obj 2))) = 2" "target (value_ref (pos 2 (obj 1))) = 1"
    "objects m0 1 = VInt 4" "objects m0 3 = VInt 7" "T ! nat (3 - 1) = TUniquePtr"
    "int (length T) = 3"
    by (simp_all add: m0_def pos_def obj_def objects_of_def T_def)
  have e3: "\<not> moved_earlier (int (length T)) x 3 2"
    by (simp add: moved_earlier_def T_def)
  from ctor [THEN conjunct1, rule_format, OF sel(1), THEN conjunct1, rule_format, OF o3(1)]
  have "objects m2 2 = VUniquePtr None"
    "get 3 3 t2 = Member True (VUniquePtr (Some ''pink pig''))"
    using o3 e3 by simp_all
  moreover from ctor [THEN conjunct1, rule_format, OF sel(2), THEN conjunct2, rule_format, OF o3(2)]
  have "objects m2 1 = VInt 4"
    using o3 by simp
  moreover from ctor [THEN conjunct2, rule_format, of 3] sel(3)
  have "objects m2 3 = VInt 7"
    using o3 by simp
  ultimately have three: "\<exists>t2 m2. tuple T x m0 = Inr (t2, m2) \<and>
     objects m2 2 = VUniquePtr None \<and>
     get 3 3 t2 = Member True (VUniquePtr (Some ''pink pig'')) \<and>
     objects m2 1 = VInt 4 \<and> objects m2 3 = VInt 7"
    using ok3 by blast
  define U where "U = [TUniquePtr, TUniquePtr]"
  define y where "y = [pos 1 (obj 0), pos 2 (obj 0)]"
  define n where "n = objects_of [VUniquePtr (Some ''pink pig'')]"
  have "\<exists>t2 m2. tuple U y n = Inr (t2, m2)"
    by (simp add: U_def y_def n_def tuple_def pos_def obj_def objects_of_def move_from_def
        move_value_def direct_init_def standard_conversion_def)
  then obtain u2 n2 where ok4: "tuple U y n = Inr (u2, n2)" by blast
  note shared = caller_object_is_moved_from [THEN conjunct2, THEN mp, OF ok4, THEN conjunct1,
      rule_format]
  have sel4: "1 \<le> (1::int) \<and> 1 \<le> int (length U) \<and> selected 1 y = Some (pos 1 (obj 0))"
    "1 \<le> (2::int) \<and> 2 \<le> int (length U) \<and> selected 2 y = Some (pos 2 (obj 0))"
    by (simp_all add: selected_def y_def pos_def U_def)
  have o4: "objects n (target (value_ref (pos 1 (obj 0)))) = VUniquePtr (Some ''pink pig'')"
    "objects n (target (value_ref (pos 2 (obj 0)))) = VUniquePtr (Some ''pink pig'')"
    "target (value_ref (pos 1 (obj 0))) = 0" "target (value_ref (pos 2 (obj 0))) = 0"
    "U ! nat (1 - 1) = TUniquePtr" "U ! nat (2 - 1) = TUniquePtr" "int (length U) = 2"
    by (simp_all add: n_def pos_def obj_def objects_of_def U_def)
  have e4: "moved_earlier (int (length U)) y 1 0" "\<not> moved_earlier (int (length U)) y 2 0"
    by (simp_all add: moved_earlier_def U_def selected_def y_def pos_def obj_def)
  from shared [OF sel4(1), THEN conjunct1, rule_format, OF o4(1)]
  have "objects n2 0 = VUniquePtr None" "get 2 1 u2 = Member True (VUniquePtr None)"
    using o4 e4 by simp_all
  moreover from shared [OF sel4(2), THEN conjunct1, rule_format, OF o4(2)]
  have "get 2 2 u2 = Member True (VUniquePtr (Some ''pink pig''))"
    using o4 e4 by simp
  ultimately have four: "\<exists>t2 m2. tuple U y n = Inr (t2, m2) \<and>
     objects m2 0 = VUniquePtr None \<and>
     get 2 2 t2 = Member True (VUniquePtr (Some ''pink pig'')) \<and>
     get 2 1 t2 = Member True (VUniquePtr None)"
    using ok4 by blast
  show ?thesis
    using one two three four unfolding t_def m_def T_def x_def m0_def U_def y_def n_def
    by (intro conjI)
qed

text \<open>
  The claim as stated is false for \<^verbatim>\<open>auto p = std::make_unique<std::string>(
  std::string("black dog")); tuple2.set<3>(p);\<close> of \<^verbatim>\<open>main\<close>: \<open>p\<close> is an object the
  caller has named and has not given up, and it is null after the call.
\<close>

theorem set_moves_from_lvalue_counterexample:
  "objects (objects_of [VUniquePtr (Some ''black dog'')]) 0 = VUniquePtr (Some ''black dog'') \<and>
   set_slot 3 (obj 0) [VBool False, VShort 4, VUniquePtr (Some ''pink pig'')]
       (objects_of [VUniquePtr (Some ''black dog'')]) =
     Inr ([VBool False, VShort 4, VUniquePtr (Some ''black dog'')],
          (objects_of [VUniquePtr (Some ''black dog'')])
            \<lparr>objects := (objects (objects_of [VUniquePtr (Some ''black dog'')]))(0 := VUniquePtr None)\<rparr>) \<and>
   objects ((objects_of [VUniquePtr (Some ''black dog'')])
            \<lparr>objects := (objects (objects_of [VUniquePtr (Some ''black dog'')]))(0 := VUniquePtr None)\<rparr>) 0 \<noteq>
     objects (objects_of [VUniquePtr (Some ''black dog'')]) 0"
  by (simp add: obj_def objects_of_def move_from_def move_value_def standard_conversion_def)

text \<open>
  C7. \<^verbatim>\<open>set<i>\<close> changes the slot \<open>i\<close> only: after a \<^verbatim>\<open>set<i>\<close> that compiles the tuple
  has as many slots as before, and \<^verbatim>\<open>get<j>()\<close> is what it was for every other index
  \<open>j\<close>.
\<close>

theorem set_changes_one_slot:
  assumes "set_slot i arg t m = Inr (t', m')" and "j \<noteq> i"
  shows "length t' = length t \<and> get (int (length t')) j t' = get (int (length t)) j t"
  using set_slot_other [OF assms] set_slot_length [OF assms(1)] by simp

text \<open>
  The theorem at \<^verbatim>\<open>tuple2.set<3>(p)\<close>: the slots 1 and 2 hold \<^verbatim>\<open>false\<close> and 4.
\<close>

theorem set_changes_one_slot_witness:
  "\<exists>t' m'. set_slot 3 (obj 0) [VBool False, VShort 4, VUniquePtr (Some ''pink pig'')]
       (objects_of [VUniquePtr (Some ''black dog'')]) = Inr (t', m') \<and>
     get (int (length t')) 1 t' = Member True (VBool False) \<and>
     get (int (length t')) 2 t' = Member True (VShort 4)"
proof -
  define t where "t = [VBool False, VShort 4, VUniquePtr (Some ''pink pig'')]"
  define m where "m = objects_of [VUniquePtr (Some ''black dog'')]"
  have "\<exists>t' m'. set_slot 3 (obj 0) t m = Inr (t', m')"
    by (simp add: t_def m_def obj_def objects_of_def move_from_def move_value_def
        standard_conversion_def)
  then obtain t' m' where ok: "set_slot 3 (obj 0) t m = Inr (t', m')" by blast
  have "get (int (length t')) 1 t' = get (int (length t)) 1 t"
    "get (int (length t')) 2 t' = get (int (length t)) 2 t"
    using set_changes_one_slot [OF ok, of 1] set_changes_one_slot [OF ok, of 2] by auto
  then have "get (int (length t')) 1 t' = Member True (VBool False)"
    "get (int (length t')) 2 t' = Member True (VShort 4)"
    by (simp_all add: t_def)
  with ok show ?thesis unfolding t_def m_def by blast
qed

text \<open>
  C10. \<^verbatim>\<open>get\<close> is read-only. It is a \<^verbatim>\<open>const\<close> member function, a function of the
  tuple alone that does not return a changed tuple, so that successive calls return the
  same. What it returns for a slot \<open>i\<close> in \<open>1..N\<close> is a reference to \<^verbatim>\<open>const\<close>, although
  through \<^verbatim>\<open>std::move\<close>: initializing an object from it copies the slot's value and
  leaves that value in the slot, and for the owning pointer, which cannot be copied,
  does not compile.
\<close>

theorem get_is_read_only:
  assumes "1 \<le> i" and "i \<le> int (length t)"
  shows "get (int (length t)) i t = Member True (t ! nat (i - 1)) \<and>
         init_from (get (int (length t)) i t) =
           (if type_of (t ! nat (i - 1)) = TUniquePtr then Inl IllFormed
            else Inr (t ! nat (i - 1), t ! nat (i - 1)))"
  using assms by (simp add: tuple_get move_value_def left_behind_other)

text \<open>
  The theorem at \<^verbatim>\<open>ctuple.get<3>()\<close> and at \<^verbatim>\<open>tuple2.get<3>()\<close>.
\<close>

theorem get_is_read_only_witness:
  "get 4 3 [VBool False, VChar 109, VDouble 3.14, VInt 0] = Member True (VDouble 3.14) \<and>
   init_from (get 4 3 [VBool False, VChar 109, VDouble 3.14, VInt 0]) =
     Inr (VDouble 3.14, VDouble 3.14) \<and>
   init_from (get 3 3 [VBool False, VShort 4, VUniquePtr (Some ''black dog'')]) = Inl IllFormed"
  using get_is_read_only [of 3 "[VBool False, VChar 109, VDouble 3.14, VInt 0]"]
    get_is_read_only [of 3 "[VBool False, VShort 4, VUniquePtr (Some ''black dog'')]"]
  by simp

end
